theory Spec2Isabelle
  imports Main "HOL-Library.Word"
begin

unbundle bit_operations_syntax

section \<open>The query hook \<open>useApiStream\<close> of the VaultIQ frontend\<close>

text \<open>
  The development embeds \<^verbatim>\<open>src/vaultiq-frontend/src/hooks/useApiStream.ts\<close>:
  the \<open>reset\<close> and \<open>query\<close> callbacks of the hook, together with the parts of the
  JavaScript platform they call (\<open>JSON.parse\<close>, \<open>TextDecoder\<close>,
  \<open>String.prototype.trim\<close>, \<open>String.prototype.includes\<close>, property reads and
  truthiness).
\<close>

subsection \<open>JavaScript strings and bytes\<close>

text \<open>
  A JavaScript string is a sequence of UTF-16 code units, here natural numbers (below
  \<open>65536\<close> in every string the functions of this theory build; no arithmetic on them can
  overflow); a chunk of a response body is a \<open>Uint8Array\<close>.
\<close>

type_synonym code_unit = nat
type_synonym js_string = "code_unit list"
type_synonym byte = "8 word"

text \<open>An ASCII literal of the source, as a JavaScript string, and as the bytes of its UTF-8 form.\<close>

definition js :: "string \<Rightarrow> js_string" where
  "js s = map of_char s"

definition ascii_bytes :: "string \<Rightarrow> byte list" where
  "ascii_bytes s = map (\<lambda>c. of_nat (of_char c)) s"

subsection \<open>JSON values and \<open>JSON.parse\<close>\<close>

text \<open>
  The values \<open>JSON.parse\<close> returns. A number is kept as the decimal it was written as,
  mantissa and power of ten (\<open>0.5\<close> is \<open>JNum 5 (-1)\<close>); the members of an object are kept
  in the order of the text, and a later member of the same name shadows an earlier one.
\<close>

datatype json =
    JNull
  | JBool bool
  | JNum int int
  | JStr js_string
  | JArr "json list"
  | JObj "(js_string \<times> json) list"

datatype token =
    TLBrace | TRBrace | TLBracket | TRBracket | TComma | TColon
  | TStr js_string | TNum int int | TTrue | TFalse | TNull

text \<open>JSON white space: tab, line feed, carriage return, space.\<close>

definition is_ws :: "code_unit \<Rightarrow> bool" where
  "is_ws c = (c = 0x09 \<or> c = 0x0A \<or> c = 0x0D \<or> c = 0x20)"

definition is_digit :: "code_unit \<Rightarrow> bool" where
  "is_digit c = (0x30 \<le> c \<and> c \<le> 0x39)"

definition digit_val :: "code_unit \<Rightarrow> int" where
  "digit_val c = int c - 48"

definition hex_val :: "code_unit \<Rightarrow> code_unit option" where
  "hex_val c =
     (if 0x30 \<le> c \<and> c \<le> 0x39 then Some (c - 0x30)
      else if 0x41 \<le> c \<and> c \<le> 0x46 then Some (c - 0x37)
      else if 0x61 \<le> c \<and> c \<le> 0x66 then Some (c - 0x57)
      else None)"

definition hex4 :: "code_unit \<Rightarrow> code_unit \<Rightarrow> code_unit \<Rightarrow> code_unit \<Rightarrow> code_unit option" where
  "hex4 a b c d =
     (case (hex_val a, hex_val b, hex_val c, hex_val d) of
        (Some h3, Some h2, Some h1, Some h0) \<Rightarrow> Some (h3 * 0x1000 + h2 * 0x100 + h1 * 0x10 + h0)
      | _ \<Rightarrow> None)"

text \<open>The single-character escapes: \<open>\"  \\  \/  \b  \f  \n  \r  \t\<close>.\<close>

definition escape :: "code_unit \<Rightarrow> code_unit option" where
  "escape e =
     (if e = 0x22 then Some 0x22
      else if e = 0x5C then Some 0x5C
      else if e = 0x2F then Some 0x2F
      else if e = 0x62 then Some 0x08
      else if e = 0x66 then Some 0x0C
      else if e = 0x6E then Some 0x0A
      else if e = 0x72 then Some 0x0D
      else if e = 0x74 then Some 0x09
      else None)"

text \<open>
  The characters of a string after its opening quote, up to the closing quote: the decoded
  string and the rest of the input. A control character (below U+0020), an unknown escape
  and a missing closing quote are syntax errors.
\<close>

fun lex_string :: "js_string \<Rightarrow> js_string \<Rightarrow> (js_string \<times> js_string) option" where
  "lex_string acc [] = None"
| "lex_string acc (c # cs) =
     (if c = 0x22 then Some (rev acc, cs)
      else if c = 0x5C then
        (case cs of
           [] \<Rightarrow> None
         | e # es \<Rightarrow>
             if e = 0x75 then
               (case es of
                  h3 # h2 # h1 # h0 # rest \<Rightarrow>
                    (case hex4 h3 h2 h1 h0 of
                       None \<Rightarrow> None
                     | Some u \<Rightarrow> lex_string (u # acc) rest)
                | _ \<Rightarrow> None)
             else
               (case escape e of
                  None \<Rightarrow> None
                | Some u \<Rightarrow> lex_string (u # acc) es))
      else if c < 0x20 then None
      else lex_string (c # acc) cs)"

text \<open>The digits at the front of the input, and the rest.\<close>

fun digits :: "js_string \<Rightarrow> js_string \<times> js_string" where
  "digits [] = ([], [])"
| "digits (c # cs) =
     (if is_digit c then (case digits cs of (ds, rest) \<Rightarrow> (c # ds, rest)) else ([], c # cs))"

definition decimal :: "js_string \<Rightarrow> int" where
  "decimal ds = foldl (\<lambda>n d. 10 * n + digit_val d) 0 ds"

text \<open>
  A number: \<open>-? (0 | [1-9][0-9]*) (. [0-9]+)? ([eE] [+-]? [0-9]+)?\<close>. The integer part is
  a single \<open>0\<close> or starts with a non-zero digit; a fraction and an exponent need a digit.
\<close>

definition lex_int :: "js_string \<Rightarrow> (js_string \<times> js_string) option" where
  "lex_int s =
     (case s of
        [] \<Rightarrow> None
      | c # cs \<Rightarrow>
          if c = 0x30 then Some ([c], cs)
          else if is_digit c then Some (digits (c # cs))
          else None)"

definition lex_frac :: "js_string \<Rightarrow> (js_string \<times> js_string) option" where
  "lex_frac s =
     (case s of
        [] \<Rightarrow> Some ([], s)
      | c # cs \<Rightarrow>
          if c = 0x2E then
            (case digits cs of (ds, rest) \<Rightarrow> if ds = [] then None else Some (ds, rest))
          else Some ([], s))"

definition lex_exp :: "js_string \<Rightarrow> (int \<times> js_string) option" where
  "lex_exp s =
     (case s of
        [] \<Rightarrow> Some (0, s)
      | c # cs \<Rightarrow>
          if c = 0x65 \<or> c = 0x45 then
            (let (neg, cs') =
                   (case cs of
                      [] \<Rightarrow> (False, cs)
                    | g # gs \<Rightarrow>
                        if g = 0x2D then (True, gs)
                        else if g = 0x2B then (False, gs)
                        else (False, cs))
             in case digits cs' of
                  (ds, rest) \<Rightarrow>
                    if ds = [] then None
                    else Some (if neg then - decimal ds else decimal ds, rest))
          else Some (0, s))"

definition lex_unsigned :: "bool \<Rightarrow> js_string \<Rightarrow> (token \<times> js_string) option" where
  "lex_unsigned neg s1 =
     (case lex_int s1 of
        None \<Rightarrow> None
      | Some (ip, s2) \<Rightarrow>
          (case lex_frac s2 of
             None \<Rightarrow> None
           | Some (fp, s3) \<Rightarrow>
               (case lex_exp s3 of
                  None \<Rightarrow> None
                | Some (e, s4) \<Rightarrow>
                    (let m = decimal (ip @ fp)
                     in Some (TNum (if neg then - m else m) (e - int (length fp)), s4)))))"

definition lex_number :: "js_string \<Rightarrow> (token \<times> js_string) option" where
  "lex_number s =
     (case s of
        [] \<Rightarrow> None
      | c # cs \<Rightarrow> if c = 0x2D then lex_unsigned True cs else lex_unsigned False s)"

text \<open>The words \<open>true\<close>, \<open>false\<close> and \<open>null\<close>.\<close>

definition lex_word :: "js_string \<Rightarrow> (token \<times> js_string) option" where
  "lex_word s =
     (if take 4 s = js ''true'' then Some (TTrue, drop 4 s)
      else if take 5 s = js ''false'' then Some (TFalse, drop 5 s)
      else if take 4 s = js ''null'' then Some (TNull, drop 4 s)
      else None)"

text \<open>One token at the front of an input that does not start with white space.\<close>

definition lex_token :: "code_unit \<Rightarrow> js_string \<Rightarrow> (token \<times> js_string) option" where
  "lex_token c cs =
     (if c = 0x7B then Some (TLBrace, cs)
      else if c = 0x7D then Some (TRBrace, cs)
      else if c = 0x5B then Some (TLBracket, cs)
      else if c = 0x5D then Some (TRBracket, cs)
      else if c = 0x2C then Some (TComma, cs)
      else if c = 0x3A then Some (TColon, cs)
      else if c = 0x22 then
        (case lex_string [] cs of None \<Rightarrow> None | Some (s, rest) \<Rightarrow> Some (TStr s, rest))
      else if c = 0x2D \<or> is_digit c then lex_number (c # cs)
      else lex_word (c # cs))"

text \<open>No token is longer than the input: the scanner below always advances.\<close>

lemma lex_string_length: "lex_string acc s = Some (r, rest) \<Longrightarrow> length rest < length s"
proof (induction acc s rule: lex_string.induct)
  case (1 acc)
  then show ?case by simp
next
  case (2 acc c cs)
  show ?case
  proof (cases "c = 0x22")
    case True
    with "2.prems" show ?thesis by simp
  next
    case quote: False
    show ?thesis
    proof (cases "c = 0x5C")
      case False
      with quote "2.prems" "2.IH"(3) show ?thesis
        by (fastforce split: if_splits)
    next
      case True
      with quote "2.prems" obtain e es where cs: "cs = e # es"
        by (cases cs) auto
      show ?thesis
      proof (cases "e = 0x75")
        case False
        with quote True cs "2.prems" obtain u
          where "escape e = Some u" "lex_string (u # acc) es = Some (r, rest)"
          by (auto split: option.splits)
        with "2.IH"(2) [OF quote True cs False] cs show ?thesis
          by fastforce
      next
        case u: True
        with quote True cs "2.prems" obtain h3 h2 h1 h0 tl v
          where es: "es = h3 # h2 # h1 # h0 # tl" and h: "hex4 h3 h2 h1 h0 = Some v"
            and r: "lex_string (v # acc) tl = Some (r, rest)"
          by (auto split: list.splits option.splits)
        have "length rest < length tl"
          using "2.IH"(1) quote True cs u es h r by blast
        with cs es show ?thesis by simp
      qed
    qed
  qed
qed

lemma digits_length: "digits s = (ds, rest) \<Longrightarrow> length rest \<le> length s"
  by (induction s arbitrary: ds rest) (auto split: if_splits prod.splits)

lemma lex_int_length: "lex_int s = Some (ds, rest) \<Longrightarrow> length rest < length s"
  by (cases s) (auto simp: lex_int_def split: if_splits prod.splits dest: digits_length)

lemma lex_frac_length: "lex_frac s = Some (ds, rest) \<Longrightarrow> length rest \<le> length s"
  by (cases s) (auto simp: lex_frac_def split: if_splits prod.splits dest: digits_length)

lemma lex_exp_length: "lex_exp s = Some (e, rest) \<Longrightarrow> length rest \<le> length s"
  by (cases s)
     (auto simp: lex_exp_def Let_def split: if_splits prod.splits list.splits
           dest!: digits_length)

lemma lex_unsigned_length:
  assumes "lex_unsigned neg s = Some (t, rest)"
  shows "length rest < length s"
proof -
  from assms obtain ip s2 fp s3 e
    where "lex_int s = Some (ip, s2)" "lex_frac s2 = Some (fp, s3)"
      "lex_exp s3 = Some (e, rest)"
    by (auto simp: lex_unsigned_def Let_def split: option.splits prod.splits)
  then have "length s2 < length s" "length s3 \<le> length s2" "length rest \<le> length s3"
    by (auto dest: lex_int_length lex_frac_length lex_exp_length)
  then show ?thesis by simp
qed

lemma lex_number_length: "lex_number (c # cs) = Some (t, rest) \<Longrightarrow> length rest \<le> length cs"
  by (auto simp: lex_number_def split: if_splits dest: lex_unsigned_length)

lemma lex_word_length: "lex_word (c # cs) = Some (t, rest) \<Longrightarrow> length rest \<le> length cs"
  by (auto simp: lex_word_def split: if_splits)

lemma lex_token_length: "lex_token c cs = Some (t, rest) \<Longrightarrow> length rest \<le> length cs"
  by (auto simp: lex_token_def split: if_splits option.splits
           dest: lex_string_length lex_number_length lex_word_length)

text \<open>The tokens of a text; \<open>None\<close> when some character starts no token.\<close>

function lex :: "js_string \<Rightarrow> token list option" where
  "lex [] = Some []"
| "lex (c # cs) =
     (if is_ws c then lex cs
      else
        (case lex_token c cs of
           None \<Rightarrow> None
         | Some (t, rest) \<Rightarrow>
             (case lex rest of None \<Rightarrow> None | Some ts \<Rightarrow> Some (t # ts))))"
  by pat_completeness auto
termination
  by (relation "measure length") (auto dest: lex_token_length)

text \<open>
  The parser runs over the tokens with a stack of the containers that are still open: an
  array with the elements read so far, an object with its members so far, and, above an
  object, the name of the member whose value is being read.
\<close>

datatype frame =
    ArrayF "json list"
  | ObjectF "(js_string \<times> json) list"
  | MemberF js_string

datatype expect =
    EValue | EValueOrEnd | EKeyOrEnd | EKey | EColon | ECommaOrEnd | EDone

type_synonym pstate = "expect \<times> frame list \<times> json option"

text \<open>A value is complete: it is the whole text, or goes into the container on top.\<close>

fun reduce :: "json \<Rightarrow> frame list \<Rightarrow> pstate option" where
  "reduce v [] = Some (EDone, [], Some v)"
| "reduce v (ArrayF acc # st) = Some (ECommaOrEnd, ArrayF (acc @ [v]) # st, None)"
| "reduce v (MemberF k # ObjectF acc # st) = Some (ECommaOrEnd, ObjectF (acc @ [(k, v)]) # st, None)"
| "reduce v _ = None"

fun start_value :: "token \<Rightarrow> frame list \<Rightarrow> pstate option" where
  "start_value TNull st = reduce JNull st"
| "start_value TTrue st = reduce (JBool True) st"
| "start_value TFalse st = reduce (JBool False) st"
| "start_value (TNum m e) st = reduce (JNum m e) st"
| "start_value (TStr s) st = reduce (JStr s) st"
| "start_value TLBracket st = Some (EValueOrEnd, ArrayF [] # st, None)"
| "start_value TLBrace st = Some (EKeyOrEnd, ObjectF [] # st, None)"
| "start_value _ st = None"

fun close_array :: "frame list \<Rightarrow> pstate option" where
  "close_array (ArrayF acc # st) = reduce (JArr acc) st"
| "close_array _ = None"

fun close_object :: "frame list \<Rightarrow> pstate option" where
  "close_object (ObjectF acc # st) = reduce (JObj acc) st"
| "close_object _ = None"

fun parse_step :: "pstate \<Rightarrow> token \<Rightarrow> pstate option" where
  "parse_step (EValue, st, r) t = start_value t st"
| "parse_step (EValueOrEnd, st, r) t = (if t = TRBracket then close_array st else start_value t st)"
| "parse_step (EKeyOrEnd, st, r) t =
     (case t of
        TStr k \<Rightarrow> Some (EColon, MemberF k # st, None)
      | TRBrace \<Rightarrow> close_object st
      | _ \<Rightarrow> None)"
| "parse_step (EKey, st, r) t =
     (case t of TStr k \<Rightarrow> Some (EColon, MemberF k # st, None) | _ \<Rightarrow> None)"
| "parse_step (EColon, st, r) t = (if t = TColon then Some (EValue, st, None) else None)"
| "parse_step (ECommaOrEnd, st, r) t =
     (case t of
        TComma \<Rightarrow>
          (case st of
             ArrayF acc # st' \<Rightarrow> Some (EValue, st, None)
           | ObjectF acc # st' \<Rightarrow> Some (EKey, st, None)
           | _ \<Rightarrow> None)
      | TRBracket \<Rightarrow> close_array st
      | TRBrace \<Rightarrow> close_object st
      | _ \<Rightarrow> None)"
| "parse_step (EDone, st, r) t = None"

fun parse_tokens :: "pstate \<Rightarrow> token list \<Rightarrow> json option" where
  "parse_tokens (e, st, r) [] = (if e = EDone then r else None)"
| "parse_tokens p (t # ts) =
     (case parse_step p t of None \<Rightarrow> None | Some p' \<Rightarrow> parse_tokens p' ts)"

text \<open>
  \<open>JSON.parse\<close>: the value of a text that is one JSON value between optional white space,
  \<open>None\<close> where JavaScript throws a \<open>SyntaxError\<close>.
\<close>

definition JSON_parse :: "js_string \<Rightarrow> json option" where
  "JSON_parse text = (case lex text of None \<Rightarrow> None | Some ts \<Rightarrow> parse_tokens (EValue, [], None) ts)"

subsection \<open>JavaScript values: property reads, truthiness, \<open>trim\<close>, \<open>includes\<close>\<close>

text \<open>
  The hook declares \<open>answer\<close> a string and \<open>sources\<close> an array, but nothing checks at run
  time what \<open>JSON.parse\<close> returned: both hold any JavaScript value that a member of a parsed
  document can be, or \<open>undefined\<close>.
\<close>

datatype js_value = Undefined | Val json

text \<open>
  The property read \<open>v.name\<close> on a parsed value, for the names the hook reads (\<open>answer\<close>,
  \<open>sources\<close>), which no prototype defines: \<open>null.name\<close> throws a \<open>TypeError\<close> (\<open>None\<close>);
  an object gives its member of that name, the last one if the text had several; everything
  else gives \<open>undefined\<close>.
\<close>

fun get_prop :: "json \<Rightarrow> js_string \<Rightarrow> js_value option" where
  "get_prop JNull name = None"
| "get_prop (JObj members) name =
     (case map_of (rev members) name of None \<Rightarrow> Some Undefined | Some v \<Rightarrow> Some (Val v))"
| "get_prop _ name = Some Undefined"

text \<open>
  The number \<open>m * 10 ^ e\<close> is read as the nearest double, which is zero when \<open>m\<close> is, and when
  the number is at most \<open>2 ^ - 1075\<close> in size (half of the least positive double).
\<close>

definition rounds_to_zero :: "int \<Rightarrow> int \<Rightarrow> bool" where
  "rounds_to_zero m e = (m = 0 \<or> (e < 0 \<and> \<bar>m\<bar> * 2 ^ 1075 \<le> 10 ^ nat (- e)))"

text \<open>The condition of \<open>if (v)\<close>: false for \<open>undefined\<close>, \<open>null\<close>, \<open>false\<close>, zero and the empty string.\<close>

fun truthy :: "js_value \<Rightarrow> bool" where
  "truthy Undefined = False"
| "truthy (Val JNull) = False"
| "truthy (Val (JBool b)) = b"
| "truthy (Val (JNum m e)) = (\<not> rounds_to_zero m e)"
| "truthy (Val (JStr s)) = (s \<noteq> [])"
| "truthy (Val (JArr vs)) = True"
| "truthy (Val (JObj members)) = True"

text \<open>White space and line terminators, the characters \<open>String.prototype.trim\<close> removes.\<close>

definition is_js_space :: "code_unit \<Rightarrow> bool" where
  "is_js_space c =
     (c = 0x09 \<or> c = 0x0A \<or> c = 0x0B \<or> c = 0x0C \<or> c = 0x0D \<or> c = 0x20 \<or> c = 0xA0
      \<or> c = 0x1680 \<or> (0x2000 \<le> c \<and> c \<le> 0x200A) \<or> c = 0x2028 \<or> c = 0x2029
      \<or> c = 0x202F \<or> c = 0x205F \<or> c = 0x3000 \<or> c = 0xFEFF)"

definition trim :: "js_string \<Rightarrow> js_string" where
  "trim s = rev (dropWhile is_js_space (rev (dropWhile is_js_space s)))"

fun starts_with :: "js_string \<Rightarrow> js_string \<Rightarrow> bool" where
  "starts_with s [] = True"
| "starts_with [] (p # ps) = False"
| "starts_with (c # cs) (p # ps) = (c = p \<and> starts_with cs ps)"

text \<open>\<open>s.includes(sub)\<close>: \<open>sub\<close> occurs in \<open>s\<close>, case-sensitively.\<close>

fun string_includes :: "js_string \<Rightarrow> js_string \<Rightarrow> bool" where
  "string_includes [] sub = (sub = [])"
| "string_includes (c # cs) sub = (starts_with (c # cs) sub \<or> string_includes cs sub)"

subsection \<open>\<open>TextDecoder\<close>: the streaming UTF-8 decoder\<close>

text \<open>
  The state a \<open>TextDecoder\<close> keeps between calls of \<open>decode(value, {stream: true})\<close>: the
  code point being assembled, the continuation bytes seen and needed, the range the next
  continuation byte must be in, and whether the byte order mark has been looked for.
\<close>

record decoder =
  code_point :: nat
  bytes_seen :: nat
  bytes_needed :: nat
  lower_boundary :: byte
  upper_boundary :: byte
  bom_seen :: bool

definition new_TextDecoder :: decoder where
  "new_TextDecoder =
     \<lparr>code_point = 0, bytes_seen = 0, bytes_needed = 0,
      lower_boundary = 0x80, upper_boundary = 0xBF, bom_seen = False\<rparr>"

definition restart :: "decoder \<Rightarrow> decoder" where
  "restart d =
     d\<lparr>code_point := 0, bytes_seen := 0, bytes_needed := 0,
       lower_boundary := 0x80, upper_boundary := 0xBF\<rparr>"

text \<open>A byte read when no code point is being assembled; a byte that starts nothing is U+FFFD.\<close>

definition utf8_lead :: "decoder \<Rightarrow> byte \<Rightarrow> decoder \<times> nat list" where
  "utf8_lead d b =
     (if b \<le> 0x7F then (d, [unat b])
      else if 0xC2 \<le> b \<and> b \<le> 0xDF then
        (d\<lparr>bytes_needed := 1, code_point := unat (b AND 0x1F)\<rparr>, [])
      else if 0xE0 \<le> b \<and> b \<le> 0xEF then
        (d\<lparr>lower_boundary := (if b = 0xE0 then 0xA0 else lower_boundary d),
           upper_boundary := (if b = 0xED then 0x9F else upper_boundary d),
           bytes_needed := 2, code_point := unat (b AND 0x0F)\<rparr>, [])
      else if 0xF0 \<le> b \<and> b \<le> 0xF4 then
        (d\<lparr>lower_boundary := (if b = 0xF0 then 0x90 else lower_boundary d),
           upper_boundary := (if b = 0xF4 then 0x8F else upper_boundary d),
           bytes_needed := 3, code_point := unat (b AND 0x07)\<rparr>, [])
      else (d, [0xFFFD]))"

text \<open>
  One byte: the new state and the code points emitted. A byte outside the expected range
  ends the sequence with U+FFFD and is read again as the start of a new one.
\<close>

definition utf8_handler :: "decoder \<Rightarrow> byte \<Rightarrow> decoder \<times> nat list" where
  "utf8_handler d b =
     (if bytes_needed d = 0 then utf8_lead d b
      else if \<not> (lower_boundary d \<le> b \<and> b \<le> upper_boundary d) then
        (case utf8_lead (restart d) b of (d', out) \<Rightarrow> (d', 0xFFFD # out))
      else
        (let d1 = d\<lparr>lower_boundary := 0x80, upper_boundary := 0xBF,
                    code_point := code_point d * 64 + unat (b AND 0x3F),
                    bytes_seen := bytes_seen d + 1\<rparr>
         in if bytes_seen d1 \<noteq> bytes_needed d1 then (d1, [])
            else (restart d1, [code_point d1])))"

fun utf8_run :: "decoder \<Rightarrow> byte list \<Rightarrow> decoder \<times> nat list" where
  "utf8_run d [] = (d, [])"
| "utf8_run d (b # bs) =
     (case utf8_handler d b of
        (d', out) \<Rightarrow> (case utf8_run d' bs of (d'', out') \<Rightarrow> (d'', out @ out')))"

text \<open>A code point as UTF-16: itself, or a surrogate pair above U+FFFF.\<close>

definition utf16 :: "nat \<Rightarrow> js_string" where
  "utf16 cp =
     (if cp < 0x10000 then [cp]
      else [0xD800 + (cp - 0x10000) div 0x400, 0xDC00 + (cp - 0x10000) mod 0x400])"

text \<open>The output of a call as a string; the first code point of the stream is dropped if it is the byte order mark.\<close>

fun serialize :: "decoder \<Rightarrow> nat list \<Rightarrow> decoder \<times> js_string" where
  "serialize d [] = (d, [])"
| "serialize d (cp # cps) =
     (if bom_seen d then (d, concat (map utf16 (cp # cps)))
      else (d\<lparr>bom_seen := True\<rparr>, concat (map utf16 (if cp = 0xFEFF then cps else cp # cps))))"

text \<open>\<open>decoder.decode(value, {stream: true})\<close>: an incomplete sequence at the end of \<open>value\<close> stays in the decoder.\<close>

definition decode :: "decoder \<Rightarrow> byte list \<Rightarrow> decoder \<times> js_string" where
  "decode d v = (case utf8_run d v of (d', cps) \<Rightarrow> serialize d' cps)"

text \<open>Decoding a whole body at once, as \<open>response.json()\<close> does: an incomplete sequence at the end is U+FFFD.\<close>

definition utf8_decode :: "byte list \<Rightarrow> js_string" where
  "utf8_decode bytes =
     (case utf8_run new_TextDecoder bytes of
        (d, cps) \<Rightarrow> snd (serialize d (cps @ (if bytes_needed d \<noteq> 0 then [0xFFFD] else []))))"

subsection \<open>The network: \<open>fetch\<close>, the response and its body\<close>

text \<open>A thrown value: an \<open>Error\<close> object with its message, or something that is not an \<open>Error\<close>.\<close>

datatype thrown = ErrorObject js_string | NonError

text \<open>
  A response body is read chunk by chunk; after the last chunk \<open>reader.read()\<close> reports
  \<open>done\<close>, or the read is rejected (the connection failed). A body that never ends has
  no place here: \<open>query\<close> does not finish on it.
\<close>

datatype stream_end = Closed | Errored thrown

record body_stream =
  chunks :: "byte list list"
  ending :: stream_end

record response =
  status :: nat
  statusText :: js_string
  content_type :: "js_string option"
  body :: "body_stream option"

text \<open>What \<open>await fetch(...)\<close> gives: a response, whatever its status, or a rejection.\<close>

datatype fetch_result = Resolved response | Rejected thrown

definition ok :: "response \<Rightarrow> bool" where
  "ok r = (200 \<le> status r \<and> status r \<le> 299)"

record ApiQueryRequest =
  query_text :: js_string
  top_k :: "nat option"
  source_filter :: "js_string list option"

text \<open>
  What the hook takes from its surroundings: the environment variable \<open>VITE_API_URL\<close>, and
  the messages the engine puts in the \<open>SyntaxError\<close> of a failed parse and in the
  \<open>TypeError\<close> of a property read on \<open>null\<close>.
\<close>

record platform =
  VITE_API_URL :: "js_string option"
  syntax_error_message :: js_string
  type_error_message :: js_string

text \<open>
  \<open>await response.json()\<close>: the whole body, decoded and parsed. A response without a body
  has the empty text, which is a syntax error; a failed read rejects with its error.
\<close>

definition response_json :: "platform \<Rightarrow> response \<Rightarrow> thrown + json" where
  "response_json pf r =
     (case body r of
        None \<Rightarrow> Inl (ErrorObject (syntax_error_message pf))
      | Some b \<Rightarrow>
          (case ending b of
             Errored t \<Rightarrow> Inl t
           | Closed \<Rightarrow>
               (case JSON_parse (utf8_decode (concat (chunks b))) of
                  None \<Rightarrow> Inl (ErrorObject (syntax_error_message pf))
                | Some v \<Rightarrow> Inr v)))"

subsection \<open>The state of the hook and its effects\<close>

record hook_state =
  answer :: js_value
  sources :: js_value
  isLoading :: bool
  error :: "js_string option"

text \<open>
  What a callback does, in order: the calls of the four state setters, and the calls out of
  the hook (the request, the reads of the response, the console).
\<close>

datatype event =
    SetAnswer js_value
  | SetSources js_value
  | SetIsLoading bool
  | SetError "js_string option"
  | Fetch js_string ApiQueryRequest
  | HeadersGet
  | ResponseJson
  | GetReader
  | ReaderRead
  | ConsoleError js_string thrown

fun apply_event :: "hook_state \<Rightarrow> event \<Rightarrow> hook_state" where
  "apply_event s (SetAnswer v) = s\<lparr>answer := v\<rparr>"
| "apply_event s (SetSources v) = s\<lparr>sources := v\<rparr>"
| "apply_event s (SetIsLoading b) = s\<lparr>isLoading := b\<rparr>"
| "apply_event s (SetError e) = s\<lparr>error := e\<rparr>"
| "apply_event s _ = s"

text \<open>The state after a sequence of effects.\<close>

definition run :: "hook_state \<Rightarrow> event list \<Rightarrow> hook_state" where
  "run s evs = foldl apply_event s evs"

text \<open>The values of \<open>useState\<close> before the first call.\<close>

definition initial_state :: hook_state where
  "initial_state = \<lparr>answer = Val (JStr []), sources = Val (JArr []), isLoading = False, error = None\<rparr>"

subsection \<open>\<open>reset\<close>\<close>

definition reset :: "event list" where
  "reset = [SetAnswer (Val (JStr [])), SetSources (Val (JArr [])), SetError None]"

subsection \<open>\<open>query\<close>: the streaming branch\<close>

text \<open>
  The \<open>try\<close> block run on the buffer after each chunk (lines 90 to 97): the setter calls it
  makes, and whether it reached its end. It is left early when \<open>JSON.parse\<close> throws and
  when a property of \<open>null\<close> is read.
\<close>

definition parse_attempt :: "js_string \<Rightarrow> event list \<times> bool" where
  "parse_attempt buffer =
     (case JSON_parse buffer of
        None \<Rightarrow> ([], False)
      | Some jsonData \<Rightarrow>
          (case get_prop jsonData (js ''answer'') of
             None \<Rightarrow> ([], False)
           | Some a \<Rightarrow>
               (case get_prop jsonData (js ''sources'') of
                  None \<Rightarrow> ([SetAnswer a], False)
                | Some src \<Rightarrow>
                    ([SetAnswer a] @ (if truthy src then [SetSources src] else []), True))))"

text \<open>
  The body of the loop for a chunk \<open>value\<close> (lines 85 to 102), on the decoder and the
  buffer: the chunk is decoded and appended; if the \<open>try\<close> block completes the buffer is
  cleared, otherwise the \<open>catch\<close> shows the buffer as the answer.
\<close>

definition process_chunk ::
  "decoder \<times> js_string \<Rightarrow> byte list \<Rightarrow> (decoder \<times> js_string) \<times> event list" where
  "process_chunk st v =
     (case st of
        (d, buffer) \<Rightarrow>
          (case decode d v of
             (d', chunk) \<Rightarrow>
               (let buffer' = buffer @ chunk
                in case parse_attempt buffer' of
                     (evs, True) \<Rightarrow> ((d', []), evs)
                   | (evs, False) \<Rightarrow> ((d', buffer'), evs @ [SetAnswer (Val (JStr buffer'))]))))"

text \<open>The \<open>done\<close> branch (lines 70 to 82): one more parse of what is left in the buffer.\<close>

definition finish :: "js_string \<Rightarrow> event list" where
  "finish buffer =
     (if trim buffer \<noteq> [] then
        (case JSON_parse buffer of
           None \<Rightarrow> []
         | Some finalData \<Rightarrow>
             (case get_prop finalData (js ''sources'') of
                None \<Rightarrow> []
              | Some src \<Rightarrow> if truthy src then [SetSources src] else []))
      else [])"

text \<open>
  The loop \<open>while (true)\<close> over the reads of the body: its effects, and the error of a
  rejected read if it ends that way.
\<close>

fun read_loop ::
  "decoder \<times> js_string \<Rightarrow> byte list list \<Rightarrow> stream_end \<Rightarrow> event list \<times> thrown option" where
  "read_loop st [] Closed = (ReaderRead # finish (snd st), None)"
| "read_loop st [] (Errored t) = ([ReaderRead], Some t)"
| "read_loop st (v # vs) e =
     (case process_chunk st v of
        (st', evs) \<Rightarrow>
          (case read_loop st' vs e of (evs', r) \<Rightarrow> (ReaderRead # evs @ evs', r)))"

text \<open>
  Lines 62 to 107: a new reader, decoder and empty buffer; an error inside the loop is
  logged and replaced by \<open>Error('Failed to read streaming response')\<close>.
\<close>

definition read_stream :: "body_stream \<Rightarrow> event list \<times> thrown option" where
  "read_stream b =
     (case read_loop (new_TextDecoder, []) (chunks b) (ending b) of
        (evs, None) \<Rightarrow> (GetReader # evs, None)
      | (evs, Some streamError) \<Rightarrow>
          (GetReader # evs @ [ConsoleError (js ''Stream reading error:'') streamError],
           Some (ErrorObject (js ''Failed to read streaming response''))))"

subsection \<open>\<open>query\<close>: the JSON branch and the whole callback\<close>

text \<open>Lines 56 to 58: the body as one document, \<open>answer\<close> and \<open>sources\<close> set from it.\<close>

definition read_json :: "platform \<Rightarrow> response \<Rightarrow> event list \<times> thrown option" where
  "read_json pf r =
     (case response_json pf r of
        Inl t \<Rightarrow> ([ResponseJson], Some t)
      | Inr data \<Rightarrow>
          (case get_prop data (js ''answer'') of
             None \<Rightarrow> ([ResponseJson], Some (ErrorObject (type_error_message pf)))
           | Some a \<Rightarrow>
               (case get_prop data (js ''sources'') of
                  None \<Rightarrow> ([ResponseJson, SetAnswer a], Some (ErrorObject (type_error_message pf)))
                | Some src \<Rightarrow> ([ResponseJson, SetAnswer a, SetSources src], None))))"

text \<open>\<open>contentType?.includes('application/json')\<close>, false when the header is absent.\<close>

definition is_json :: "response \<Rightarrow> bool" where
  "is_json r =
     (case content_type r of
        None \<Rightarrow> False
      | Some contentType \<Rightarrow> string_includes contentType (js ''application/json''))"

text \<open>
  Lines 37 and 38: \<open>import.meta.env.VITE_API_URL || ''\<close> followed by \<open>/api/query\<close>; an
  unset variable and an empty one both give the empty base.
\<close>

definition endpoint_of :: "platform \<Rightarrow> js_string" where
  "endpoint_of pf =
     (let apiUrl = (case VITE_API_URL pf of None \<Rightarrow> [] | Some u \<Rightarrow> u)
      in apiUrl @ js ''/api/query'')"

text \<open>The \<open>try\<close> block of \<open>query\<close> (lines 36 to 110): its effects, and what it throws if it does.\<close>

definition try_body :: "platform \<Rightarrow> ApiQueryRequest \<Rightarrow> fetch_result \<Rightarrow> event list \<times> thrown option" where
  "try_body pf request fr =
     (let endpoint = endpoint_of pf
      in case fr of
           Rejected t \<Rightarrow> ([Fetch endpoint request], Some t)
         | Resolved r \<Rightarrow>
             if \<not> ok r then
               ([Fetch endpoint request],
                Some (ErrorObject (js ''API request failed: '' @ statusText r)))
             else if is_json r then
               (case read_json pf r of
                  (evs, res) \<Rightarrow> (Fetch endpoint request # HeadersGet # evs, res))
             else
               (case body r of
                  Some b \<Rightarrow>
                    (case read_stream b of
                       (evs, res) \<Rightarrow> (Fetch endpoint request # HeadersGet # evs, res))
                | None \<Rightarrow>
                    ([Fetch endpoint request, HeadersGet],
                     Some (ErrorObject (js ''No response body received'')))))"

text \<open>\<open>err instanceof Error ? err.message : 'An unknown error occurred'\<close>.\<close>

fun errorMessage :: "thrown \<Rightarrow> js_string" where
  "errorMessage (ErrorObject message) = message"
| "errorMessage NonError = js ''An unknown error occurred''"

text \<open>The four setter calls at the start of \<open>query\<close> (lines 30 to 33).\<close>

definition query_start :: "event list" where
  "query_start =
     [SetIsLoading True, SetError None, SetAnswer (Val (JStr [])), SetSources (Val (JArr []))]"

text \<open>The \<open>catch\<close> block (lines 111 to 114).\<close>

definition query_catch :: "thrown \<Rightarrow> event list" where
  "query_catch err = [SetError (Some (errorMessage err)), ConsoleError (js ''API query error:'') err]"

text \<open>
  \<open>query\<close>: its effects, and what the promise it returns settles with: \<open>None\<close> when it
  resolves, the thrown value when it rejects.
\<close>

definition query :: "platform \<Rightarrow> ApiQueryRequest \<Rightarrow> fetch_result \<Rightarrow> event list \<times> thrown option" where
  "query pf request fr =
     (case try_body pf request fr of
        (evs, None) \<Rightarrow> (query_start @ evs @ [SetIsLoading False], None)
      | (evs, Some err) \<Rightarrow> (query_start @ evs @ query_catch err @ [SetIsLoading False], None))"

text \<open>
  The streaming branch without the parse at the end of the stream: \<open>read_loop\<close> with an
  empty \<open>done\<close> branch, and \<open>query\<close> built on it.
\<close>

fun read_loop_no_reparse ::
  "decoder \<times> js_string \<Rightarrow> byte list list \<Rightarrow> stream_end \<Rightarrow> event list \<times> thrown option" where
  "read_loop_no_reparse st [] Closed = ([ReaderRead], None)"
| "read_loop_no_reparse st [] (Errored t) = ([ReaderRead], Some t)"
| "read_loop_no_reparse st (v # vs) e =
     (case process_chunk st v of
        (st', evs) \<Rightarrow>
          (case read_loop_no_reparse st' vs e of (evs', r) \<Rightarrow> (ReaderRead # evs @ evs', r)))"

definition read_stream_no_reparse :: "body_stream \<Rightarrow> event list \<times> thrown option" where
  "read_stream_no_reparse b =
     (case read_loop_no_reparse (new_TextDecoder, []) (chunks b) (ending b) of
        (evs, None) \<Rightarrow> (GetReader # evs, None)
      | (evs, Some streamError) \<Rightarrow>
          (GetReader # evs @ [ConsoleError (js ''Stream reading error:'') streamError],
           Some (ErrorObject (js ''Failed to read streaming response''))))"

definition try_body_no_reparse ::
  "platform \<Rightarrow> ApiQueryRequest \<Rightarrow> fetch_result \<Rightarrow> event list \<times> thrown option" where
  "try_body_no_reparse pf request fr =
     (let endpoint = endpoint_of pf
      in case fr of
           Rejected t \<Rightarrow> ([Fetch endpoint request], Some t)
         | Resolved r \<Rightarrow>
             if \<not> ok r then
               ([Fetch endpoint request],
                Some (ErrorObject (js ''API request failed: '' @ statusText r)))
             else if is_json r then
               (case read_json pf r of
                  (evs, res) \<Rightarrow> (Fetch endpoint request # HeadersGet # evs, res))
             else
               (case body r of
                  Some b \<Rightarrow>
                    (case read_stream_no_reparse b of
                       (evs, res) \<Rightarrow> (Fetch endpoint request # HeadersGet # evs, res))
                | None \<Rightarrow>
                    ([Fetch endpoint request, HeadersGet],
                     Some (ErrorObject (js ''No response body received'')))))"

definition query_no_reparse ::
  "platform \<Rightarrow> ApiQueryRequest \<Rightarrow> fetch_result \<Rightarrow> event list \<times> thrown option" where
  "query_no_reparse pf request fr =
     (case try_body_no_reparse pf request fr of
        (evs, None) \<Rightarrow> (query_start @ evs @ [SetIsLoading False], None)
      | (evs, Some err) \<Rightarrow> (query_start @ evs @ query_catch err @ [SetIsLoading False], None))"

section \<open>Properties\<close>

subsection \<open>Definitions used in the statements and proofs\<close>

text \<open>
  A scan of a text that only tracks whether it is inside a string and how many brackets
  and braces are open; a text \<open>JSON.parse\<close> accepts ends outside a string with none open.
\<close>

datatype scan_mode = Outside | InString | Escaped

fun scan_char :: "scan_mode \<times> int \<Rightarrow> code_unit \<Rightarrow> scan_mode \<times> int" where
  "scan_char (Outside, d) c =
     (if c = 0x22 then (InString, d)
      else if c = 0x7B \<or> c = 0x5B then (Outside, d + 1)
      else if c = 0x7D \<or> c = 0x5D then (Outside, d - 1)
      else (Outside, d))"
| "scan_char (InString, d) c =
     (if c = 0x22 then (Outside, d) else if c = 0x5C then (Escaped, d) else (InString, d))"
| "scan_char (Escaped, d) c = (InString, d)"

definition scan :: "scan_mode \<times> int \<Rightarrow> js_string \<Rightarrow> scan_mode \<times> int" where
  "scan = foldl scan_char"

fun token_depth :: "token \<Rightarrow> int" where
  "token_depth TLBrace = 1"
| "token_depth TLBracket = 1"
| "token_depth TRBrace = - 1"
| "token_depth TRBracket = - 1"
| "token_depth _ = 0"

fun open_frames :: "frame list \<Rightarrow> int" where
  "open_frames [] = 0"
| "open_frames (MemberF k # st) = open_frames st"
| "open_frames (_ # st) = 1 + open_frames st"

fun never_closed :: "scan_mode \<times> int \<Rightarrow> js_string \<Rightarrow> bool" where
  "never_closed \<sigma> [] = True"
| "never_closed \<sigma> [c] = True"
| "never_closed \<sigma> (c # cs) = (scan_char \<sigma> c \<noteq> (Outside, 0) \<and> never_closed (scan_char \<sigma> c) cs)"

text \<open>A parser state that has finished has no open container.\<close>

definition wf_pstate :: "pstate \<Rightarrow> bool" where
  "wf_pstate p = (case p of (e, st, r) \<Rightarrow> e = EDone \<longrightarrow> st = [])"

text \<open>The effects that reach the network or the response.\<close>

definition is_network :: "event \<Rightarrow> bool" where
  "is_network e =
     (case e of
        Fetch endpoint request \<Rightarrow> True
      | HeadersGet \<Rightarrow> True
      | ResponseJson \<Rightarrow> True
      | GetReader \<Rightarrow> True
      | ReaderRead \<Rightarrow> True
      | _ \<Rightarrow> False)"

definition reads_response :: "event \<Rightarrow> bool" where
  "reads_response e = (e = HeadersGet \<or> e = ResponseJson \<or> e = GetReader \<or> e = ReaderRead)"

text \<open>A platform, a request and an initial state for the examples.\<close>

definition example_platform :: platform where
  "example_platform =
     \<lparr>VITE_API_URL = None, syntax_error_message = js ''Unexpected end of JSON input'',
      type_error_message = js ''Cannot read properties of null''\<rparr>"

definition example_request :: ApiQueryRequest where
  "example_request = \<lparr>query_text = js ''q'', top_k = None, source_filter = None\<rparr>"

text \<open>
  The loop after the chunks \<open>vs\<close> have been read and processed: the decoder and buffer,
  and the effects so far. \<open>query_after_chunks\<close> is then everything \<open>query\<close> has done at that
  point, for a response that is read as a stream.
\<close>

fun after_chunks ::
  "decoder \<times> js_string \<Rightarrow> byte list list \<Rightarrow> (decoder \<times> js_string) \<times> event list" where
  "after_chunks st [] = (st, [])"
| "after_chunks st (v # vs) =
     (case process_chunk st v of
        (st', evs) \<Rightarrow>
          (case after_chunks st' vs of (st'', evs') \<Rightarrow> (st'', ReaderRead # evs @ evs')))"

definition query_after_chunks :: "platform \<Rightarrow> ApiQueryRequest \<Rightarrow> byte list list \<Rightarrow> event list" where
  "query_after_chunks pf request vs =
     query_start @ [Fetch (endpoint_of pf) request, HeadersGet, GetReader]
       @ snd (after_chunks (new_TextDecoder, []) vs)"

text \<open>The number of calls of \<open>setSources\<close> among some effects.\<close>

fun is_SetSources :: "event \<Rightarrow> bool" where
  "is_SetSources (SetSources v) = True"
| "is_SetSources _ = False"

definition source_updates :: "event list \<Rightarrow> nat" where
  "source_updates evs = length (filter is_SetSources evs)"

text \<open>The values given to \<open>setSources\<close> among some effects, in order.\<close>

fun source_values :: "event list \<Rightarrow> js_value list" where
  "source_values [] = []"
| "source_values (SetSources v # evs) = v # source_values evs"
| "source_values (e # evs) = source_values evs"

text \<open>
  The assignments of \<open>sources\<close> as the corrected claim C4 words them, to be compared with
  the calls of \<open>setSources\<close> that \<open>query\<close> makes. The member of a document: the value of
  its last member of that name, \<open>undefined\<close> if it has none or is not an object.
\<close>

fun member_of :: "json \<Rightarrow> js_string \<Rightarrow> js_value" where
  "member_of (JObj members) name =
     (case map_of (rev members) name of None \<Rightarrow> Undefined | Some v \<Rightarrow> Val v)"
| "member_of _ name = Undefined"

text \<open>The values that do not count as a list of sources: \<open>undefined\<close>, \<open>null\<close>, \<open>false\<close>, the empty string and zero.\<close>

definition falsy :: "js_value \<Rightarrow> bool" where
  "falsy v =
     (v = Undefined \<or> v = Val JNull \<or> v = Val (JBool False) \<or> v = Val (JStr [])
      \<or> (case v of Val (JNum m e) \<Rightarrow> rounds_to_zero m e | _ \<Rightarrow> False))"

text \<open>
  For a stream: chunk after chunk, the text accumulated since the last complete document
  is parsed; when it is a JSON value other than \<open>null\<close> the accumulation starts again, and
  its member \<open>sources\<close> is assigned unless that is falsy.
\<close>

fun chunk_sources :: "decoder \<Rightarrow> js_string \<Rightarrow> byte list list \<Rightarrow> js_value list" where
  "chunk_sources d buffer [] = []"
| "chunk_sources d buffer (v # vs) =
     (case decode d v of
        (d', chunk) \<Rightarrow>
          (case JSON_parse (buffer @ chunk) of
             None \<Rightarrow> chunk_sources d' (buffer @ chunk) vs
           | Some document \<Rightarrow>
               if document = JNull then chunk_sources d' (buffer @ chunk) vs
               else if falsy (member_of document (js ''sources'')) then chunk_sources d' [] vs
               else member_of document (js ''sources'') # chunk_sources d' [] vs))"

text \<open>
  For a whole call: nothing when the request is rejected, the status is outside 200 to 299
  or the body is missing; for a response read as JSON, the member \<open>sources\<close> of the
  document, whatever it is, unless the body is not JSON or is \<open>null\<close>; for a stream, as above.
\<close>

definition expected_sources :: "platform \<Rightarrow> fetch_result \<Rightarrow> js_value list" where
  "expected_sources pf fr =
     (case fr of
        Rejected t \<Rightarrow> []
      | Resolved r \<Rightarrow>
          if \<not> ok r then []
          else if is_json r then
            (case response_json pf r of
               Inl t \<Rightarrow> []
             | Inr document \<Rightarrow>
                 if document = JNull then [] else [member_of document (js ''sources'')])
          else (case body r of None \<Rightarrow> [] | Some b \<Rightarrow> chunk_sources new_TextDecoder [] (chunks b)))"

text \<open>A parsed value without a member of the given name: anything but an object that has one.\<close>

fun lacks_field :: "json \<Rightarrow> js_string \<Rightarrow> bool" where
  "lacks_field (JObj members) name = (name \<notin> set (map fst members))"
| "lacks_field _ name = True"

text \<open>The documents of the examples.\<close>

definition streamed_doc :: string where
  \<open>streamed_doc = ''{"answer":"final","sources":[{"title":"T","url":"u","source_type":"github","relevance_score":0.5,"snippet":"s"}],"query":"q","timestamp":"t"}''\<close>

definition streamed_citation :: json where
  "streamed_citation =
     JObj [(js ''title'', JStr (js ''T'')), (js ''url'', JStr (js ''u'')),
           (js ''source_type'', JStr (js ''github'')), (js ''relevance_score'', JNum 5 (- 1)),
           (js ''snippet'', JStr (js ''s''))]"

definition round_trip_doc :: string where
  \<open>round_trip_doc = ''{"answer":"A","sources":[],"query":"q","timestamp":"t"}''\<close>

definition is_ascii :: "string \<Rightarrow> bool" where
  "is_ascii s = list_all (\<lambda>c. of_char c < (128::nat)) s"

text \<open>Responses for the examples.\<close>

definition first_doc :: string where
  \<open>first_doc = ''{"answer":"a","sources":[{"title":"T","url":"u","source_type":"github","relevance_score":0.5,"snippet":"s"}],"query":"q","timestamp":"t"}''\<close>

definition second_doc :: string where
  \<open>second_doc = ''{"answer":"b","sources":[{"title":"U","url":"v","source_type":"jira","relevance_score":0.9,"snippet":"w"}],"query":"q","timestamp":"t"}''\<close>

definition second_citation :: json where
  "second_citation =
     JObj [(js ''title'', JStr (js ''U'')), (js ''url'', JStr (js ''v'')),
           (js ''source_type'', JStr (js ''jira'')), (js ''relevance_score'', JNum 9 (- 1)),
           (js ''snippet'', JStr (js ''w''))]"

definition two_documents :: response where
  "two_documents =
     \<lparr>status = 200, statusText = js ''OK'', content_type = Some (js ''text/plain''),
      body = Some \<lparr>chunks = [ascii_bytes first_doc, ascii_bytes second_doc], ending = Closed\<rparr>\<rparr>"

definition null_body :: response where
  "null_body =
     \<lparr>status = 200, statusText = js ''OK'', content_type = Some (js ''text/plain''),
      body = Some \<lparr>chunks = [ascii_bytes ''null''], ending = Closed\<rparr>\<rparr>"

definition number_body :: response where
  "number_body =
     \<lparr>status = 200, statusText = js ''OK'', content_type = Some (js ''text/plain''),
      body = Some \<lparr>chunks = [ascii_bytes ''42''], ending = Closed\<rparr>\<rparr>"

definition broken_stream :: response where
  "broken_stream =
     \<lparr>status = 200, statusText = js ''OK'', content_type = Some (js ''text/plain''),
      body = Some \<lparr>chunks = [ascii_bytes ''Hel''],
                    ending = Errored (ErrorObject (js ''network error''))\<rparr>\<rparr>"

definition json_response :: response where
  "json_response =
     \<lparr>status = 200, statusText = js ''OK'', content_type = Some (js ''application/json''),
      body = Some \<lparr>chunks = [ascii_bytes round_trip_doc], ending = Closed\<rparr>\<rparr>"

definition hello_stream :: response where
  "hello_stream =
     \<lparr>status = 200, statusText = js ''OK'', content_type = Some (js ''text/plain''),
      body = Some \<lparr>chunks = [ascii_bytes ''Hel'', ascii_bytes ''lo wor'', ascii_bytes ''ld''],
                    ending = Closed\<rparr>\<rparr>"

subsection \<open>A text that parses is balanced\<close>

lemma scan_Nil [simp]: "scan \<sigma> [] = \<sigma>"
  by (simp add: scan_def)

lemma scan_Cons [simp]: "scan \<sigma> (c # cs) = scan (scan_char \<sigma> c) cs"
  by (simp add: scan_def)

lemma scan_append: "scan \<sigma> (xs @ ys) = scan (scan \<sigma> xs) ys"
  by (simp add: scan_def)

lemma hex_val_plain: "hex_val h = Some v \<Longrightarrow> h \<noteq> 0x22 \<and> h \<noteq> 0x5C"
  by (auto simp: hex_val_def split: if_splits)

lemma hex4_scan:
  "hex4 h3 h2 h1 h0 = Some u \<Longrightarrow> scan (InString, d) (h3 # h2 # h1 # h0 # rest) = scan (InString, d) rest"
  by (auto simp: hex4_def split: option.splits dest!: hex_val_plain)

lemma lex_string_scan:
  "lex_string acc s = Some (r, rest) \<Longrightarrow> scan (InString, d) s = scan (Outside, d) rest"
proof (induction acc s rule: lex_string.induct)
  case (1 acc)
  then show ?case by simp
next
  case (2 acc c cs)
  show ?case
  proof (cases "c = 0x22")
    case True
    with "2.prems" show ?thesis by simp
  next
    case quote: False
    show ?thesis
    proof (cases "c = 0x5C")
      case False
      with quote "2.prems" "2.IH"(3) show ?thesis
        by (auto split: if_splits)
    next
      case True
      with quote "2.prems" obtain e es where cs: "cs = e # es"
        by (cases cs) auto
      show ?thesis
      proof (cases "e = 0x75")
        case False
        with quote True cs "2.prems" obtain u
          where "escape e = Some u" "lex_string (u # acc) es = Some (r, rest)"
          by (auto split: option.splits)
        with "2.IH"(2) [OF quote True cs False] cs True show ?thesis
          by simp
      next
        case u: True
        with quote True cs "2.prems" obtain h3 h2 h1 h0 tl v
          where es: "es = h3 # h2 # h1 # h0 # tl" and h: "hex4 h3 h2 h1 h0 = Some v"
            and r: "lex_string (v # acc) tl = Some (r, rest)"
          by (auto split: list.splits option.splits)
        have "scan (InString, d) tl = scan (Outside, d) rest"
          using "2.IH"(1) quote True cs u es h r by blast
        with cs es True hex4_scan [OF h, of d tl] show ?thesis by simp
      qed
    qed
  qed
qed

lemma digits_scan: "digits s = (ds, rest) \<Longrightarrow> scan (Outside, d) s = scan (Outside, d) rest"
  by (induction s arbitrary: ds rest) (auto simp: is_digit_def split: if_splits prod.splits)

lemma lex_int_scan: "lex_int s = Some (ds, rest) \<Longrightarrow> scan (Outside, d) s = scan (Outside, d) rest"
  by (cases s) (auto simp: lex_int_def is_digit_def split: if_splits prod.splits dest: digits_scan)

lemma lex_frac_scan: "lex_frac s = Some (ds, rest) \<Longrightarrow> scan (Outside, d) s = scan (Outside, d) rest"
  by (cases s) (auto simp: lex_frac_def split: if_splits prod.splits dest: digits_scan)

lemma lex_exp_scan: "lex_exp s = Some (e, rest) \<Longrightarrow> scan (Outside, d) s = scan (Outside, d) rest"
  by (cases s)
     (auto simp: lex_exp_def Let_def split: if_splits prod.splits list.splits
           dest: digits_scan)

lemma lex_unsigned_scan:
  assumes "lex_unsigned neg s = Some (t, rest)"
  shows "scan (Outside, d) s = scan (Outside, d) rest \<and> token_depth t = 0"
proof -
  from assms obtain ip s2 fp s3 e
    where "lex_int s = Some (ip, s2)" "lex_frac s2 = Some (fp, s3)"
      "lex_exp s3 = Some (e, rest)" and t: "token_depth t = 0"
    by (auto simp: lex_unsigned_def Let_def split: option.splits prod.splits)
  then show ?thesis
    using lex_int_scan [of s ip s2 d] lex_frac_scan [of s2 fp s3 d] lex_exp_scan [of s3 e rest d]
    by simp
qed

lemma lex_number_scan:
  "lex_number s = Some (t, rest) \<Longrightarrow> scan (Outside, d) s = scan (Outside, d) rest \<and> token_depth t = 0"
  by (cases s) (auto simp: lex_number_def split: if_splits dest: lex_unsigned_scan)

lemma take_scan:
  assumes "take n s = w" "scan (Outside, d) w = (Outside, d)"
  shows "scan (Outside, d) s = scan (Outside, d) (drop n s)"
proof -
  have "scan (Outside, d) s = scan (Outside, d) (take n s @ drop n s)" by simp
  also have "\<dots> = scan (Outside, d) (drop n s)"
    unfolding scan_append using assms by simp
  finally show ?thesis .
qed

lemma lex_word_scan:
  "lex_word s = Some (t, rest) \<Longrightarrow> scan (Outside, d) s = scan (Outside, d) rest \<and> token_depth t = 0"
  by (auto simp: lex_word_def js_def split: if_splits intro!: take_scan)

lemma lex_token_scan:
  "lex_token c cs = Some (t, rest) \<Longrightarrow>
   scan (Outside, d) (c # cs) = scan (Outside, d + token_depth t) rest"
  using lex_number_scan [of "c # cs" t rest d] lex_word_scan [of "c # cs" t rest d]
  by (auto simp: lex_token_def is_digit_def split: if_splits option.splits dest: lex_string_scan)

lemma lex_scan:
  "lex s = Some ts \<Longrightarrow> scan (Outside, d) s = (Outside, d + sum_list (map token_depth ts))"
proof (induction s arbitrary: ts d rule: lex.induct)
  case 1
  then show ?case by simp
next
  case (2 c cs)
  show ?case
  proof (cases "is_ws c")
    case True
    with "2.prems" "2.IH"(1) [of ts d] show ?thesis
      by (auto simp: is_ws_def)
  next
    case False
    with "2.prems" obtain t rest ts' where tok: "lex_token c cs = Some (t, rest)"
      and rest: "lex rest = Some ts'" and ts: "ts = t # ts'"
      by (auto split: option.splits)
    from "2.IH"(2) [OF False tok refl rest]
    have "scan (Outside, d + token_depth t) rest = (Outside, d + token_depth t + sum_list (map token_depth ts'))" .
    with lex_token_scan [OF tok, of d] ts show ?thesis by simp
  qed
qed

lemma reduce_depth:
  "reduce v st = Some (e', st', r') \<Longrightarrow> open_frames st' = open_frames st \<and> wf_pstate (e', st', r')"
  by (induction v st rule: reduce.induct) (auto simp: wf_pstate_def)

lemma start_value_depth:
  "start_value t st = Some (e', st', r') \<Longrightarrow>
   open_frames st' = open_frames st + token_depth t \<and> wf_pstate (e', st', r')"
  by (cases t) (auto simp: wf_pstate_def dest: reduce_depth)

lemma close_array_depth:
  "close_array st = Some (e', st', r') \<Longrightarrow>
   open_frames st' = open_frames st - 1 \<and> wf_pstate (e', st', r')"
  by (induction st rule: close_array.induct) (auto dest: reduce_depth)

lemma close_object_depth:
  "close_object st = Some (e', st', r') \<Longrightarrow>
   open_frames st' = open_frames st - 1 \<and> wf_pstate (e', st', r')"
  by (induction st rule: close_object.induct) (auto dest: reduce_depth)

lemma parse_step_depth:
  "parse_step (e, st, r) t = Some (e', st', r') \<Longrightarrow>
   open_frames st' = open_frames st + token_depth t \<and> wf_pstate (e', st', r')"
  by (cases e; cases t)
     (auto simp: wf_pstate_def split: if_splits list.splits frame.splits
           dest: reduce_depth start_value_depth close_array_depth close_object_depth)

lemma parse_tokens_depth:
  "parse_tokens (e, st, r) ts = Some v \<Longrightarrow> wf_pstate (e, st, r) \<Longrightarrow>
   open_frames st + sum_list (map token_depth ts) = 0"
proof (induction ts arbitrary: e st r)
  case Nil
  then show ?case by (auto simp: wf_pstate_def split: if_splits)
next
  case (Cons t ts)
  from Cons.prems(1) obtain e' st' r' where step: "parse_step (e, st, r) t = Some (e', st', r')"
    and rest: "parse_tokens (e', st', r') ts = Some v"
    by (auto split: option.splits)
  from parse_step_depth [OF step] Cons.IH [OF rest] show ?case by simp
qed

lemma JSON_parse_balanced: "JSON_parse s = Some v \<Longrightarrow> scan (Outside, 0) s = (Outside, 0)"
proof -
  assume "JSON_parse s = Some v"
  then obtain ts where l: "lex s = Some ts" and p: "parse_tokens (EValue, [], None) ts = Some v"
    by (auto simp: JSON_parse_def split: option.splits)
  from parse_tokens_depth [OF p] have "sum_list (map token_depth ts) = 0"
    by (simp add: wf_pstate_def)
  with lex_scan [OF l, of 0] show ?thesis by simp
qed

lemma never_closed_prefix:
  "never_closed \<sigma> (p @ q) \<Longrightarrow> p \<noteq> [] \<Longrightarrow> q \<noteq> [] \<Longrightarrow> scan \<sigma> p \<noteq> (Outside, 0)"
proof (induction p arbitrary: \<sigma>)
  case Nil
  then show ?case by simp
next
  case (Cons c p)
  then obtain x xs where pq: "p @ q = x # xs" by (cases "p @ q") auto
  with Cons.prems(1) have 1: "scan_char \<sigma> c \<noteq> (Outside, 0)" and 2: "never_closed (scan_char \<sigma> c) (p @ q)"
    by auto
  show ?case
  proof (cases "p = []")
    case True
    with 1 show ?thesis by simp
  next
    case False
    from Cons.IH [OF 2 False Cons.prems(3)] show ?thesis by simp
  qed
qed

subsection \<open>Running effects\<close>

lemma run_Nil [simp]: "run s [] = s"
  by (simp add: run_def)

lemma run_Cons [simp]: "run s (e # evs) = run (apply_event s e) evs"
  by (simp add: run_def)

lemma run_append: "run s (xs @ ys) = run (run s xs) ys"
  by (simp add: run_def)

lemma starts_with_self: "starts_with s s"
  by (induction s) auto

lemma string_includes_self: "string_includes s s"
  by (cases s) (auto simp: starts_with_self)

lemma string_includes_suffix: "string_includes (p @ s) s"
  by (induction p) (auto simp: string_includes_self)

lemma get_prop_None: "get_prop v name = None \<longleftrightarrow> v = JNull"
  by (cases v) (auto split: option.splits)

lemma finish_Nil: "finish [] = []"
  by (simp add: finish_def trim_def)

lemma finish_failed: "snd (parse_attempt buffer) = False \<Longrightarrow> finish buffer = []"
  by (auto simp: parse_attempt_def finish_def get_prop_None split: option.splits)

lemma finish_after_chunk: "finish (snd (fst (process_chunk st v))) = []"
proof -
  obtain d buffer where st: "st = (d, buffer)" by (cases st)
  obtain d' chunk where dec: "decode d v = (d', chunk)" by (cases "decode d v")
  obtain evs b where pa: "parse_attempt (buffer @ chunk) = (evs, b)"
    by (cases "parse_attempt (buffer @ chunk)")
  show ?thesis
  proof (cases b)
    case True
    with st dec pa show ?thesis by (simp add: process_chunk_def finish_Nil Let_def)
  next
    case False
    with pa have "finish (buffer @ chunk) = []" by (simp add: finish_failed)
    with False st dec pa show ?thesis by (simp add: process_chunk_def Let_def)
  qed
qed

lemma read_loop_no_reparse_eq:
  "finish (snd st) = [] \<Longrightarrow> read_loop_no_reparse st vs e = read_loop st vs e"
proof (induction vs arbitrary: st)
  case Nil
  then show ?case by (cases e) simp_all
next
  case (Cons v vs)
  obtain st' evs where pc: "process_chunk st v = (st', evs)" by (cases "process_chunk st v")
  have "finish (snd st') = []"
    using finish_after_chunk [of st v] pc by simp
  from Cons.IH [OF this] pc show ?case by simp
qed

lemma read_stream_no_reparse_eq: "read_stream_no_reparse b = read_stream b"
  by (simp add: read_stream_no_reparse_def read_stream_def read_loop_no_reparse_eq finish_Nil)

lemma try_body_no_reparse_eq: "try_body_no_reparse pf request fr = try_body pf request fr"
  unfolding try_body_no_reparse_def try_body_def read_stream_no_reparse_eq ..


subsection \<open>Decoding ASCII bytes\<close>

lemma unat_ascii_bytes: "map unat (ascii_bytes s) = js s"
  by (simp add: ascii_bytes_def js_def unat_of_nat)

lemma utf8_run_ascii:
  "bytes_needed d = 0 \<Longrightarrow> \<forall>b\<in>set v. b \<le> 0x7F \<Longrightarrow> utf8_run d v = (d, map unat v)"
  by (induction v) (auto simp: utf8_handler_def utf8_lead_def)

lemma utf16_small: "\<forall>c\<in>set cps. c < 0x10000 \<Longrightarrow> concat (map utf16 cps) = cps"
  by (induction cps) (auto simp: utf16_def)

lemma serialize_ascii:
  "\<forall>c\<in>set cps. c < 0x80 \<Longrightarrow> serialize d cps = (d\<lparr>bom_seen := bom_seen d \<or> cps \<noteq> []\<rparr>, cps)"
proof (cases cps)
  case Nil
  then show ?thesis by simp
next
  case (Cons c cs)
  assume a: "\<forall>c\<in>set cps. c < 0x80"
  then have "\<forall>c\<in>set cps. c < 0x10000" by auto
  then have "concat (map utf16 cps) = cps" by (rule utf16_small)
  moreover from a Cons have "c \<noteq> 0xFEFF" by auto
  ultimately show ?thesis using Cons by (cases "bom_seen d") auto
qed

lemma unat_ascii: "(b :: byte) \<le> 0x7F \<Longrightarrow> unat b < 0x80"
  by (simp add: word_le_nat_alt)

lemma decode_ascii:
  assumes "bytes_needed d = 0" and "\<forall>b\<in>set v. b \<le> 0x7F"
  shows "decode d v = (d\<lparr>bom_seen := bom_seen d \<or> v \<noteq> []\<rparr>, map unat v)"
proof -
  have "\<forall>c\<in>set (map unat v). c < 0x80"
    using assms(2) by (auto dest: unat_ascii)
  from serialize_ascii [OF this, of d] utf8_run_ascii [OF assms] show ?thesis
    by (simp add: decode_def)
qed

lemma utf8_decode_ascii:
  assumes "\<forall>b\<in>set v. b \<le> 0x7F"
  shows "utf8_decode v = map unat v"
proof -
  have "\<forall>c\<in>set (map unat v). c < 0x80"
    using assms by (auto dest: unat_ascii)
  from serialize_ascii [OF this, of new_TextDecoder] utf8_run_ascii [OF _ assms, of new_TextDecoder]
  show ?thesis
    by (simp add: utf8_decode_def new_TextDecoder_def)
qed

lemma ascii_bytes_small: "is_ascii s \<Longrightarrow> \<forall>b\<in>set (ascii_bytes s). b \<le> 0x7F"
  by (induction s) (auto simp: is_ascii_def ascii_bytes_def word_le_nat_alt unat_of_nat)

subsection \<open>The streamed document and its prefixes\<close>

lemmas json_eval = JSON_parse_def is_ws_def lex_token_def is_digit_def lex_number_def
  lex_unsigned_def lex_int_def lex_frac_def lex_exp_def decimal_def digit_val_def lex_word_def
  escape_def

lemma JSON_parse_empty: "JSON_parse [] = None"
  by (simp add: JSON_parse_def)

lemma streamed_doc_parse:
  "JSON_parse (js streamed_doc) =
     Some (JObj [(js ''answer'', JStr (js ''final'')), (js ''sources'', JArr [streamed_citation]),
                 (js ''query'', JStr (js ''q'')), (js ''timestamp'', JStr (js ''t''))])"
  by (simp add: streamed_doc_def streamed_citation_def js_def json_eval)

lemma streamed_doc_never_closed: "never_closed (Outside, 0) (js streamed_doc)"
  by (simp add: js_def streamed_doc_def)

lemma streamed_doc_ascii: "is_ascii streamed_doc"
  by (simp add: is_ascii_def streamed_doc_def)

lemma streamed_doc_prefix_fails:
  assumes "js streamed_doc = p @ q" and "q \<noteq> []"
  shows "JSON_parse p = None"
proof (cases "p = []")
  case True
  then show ?thesis by (simp add: JSON_parse_empty)
next
  case False
  have "never_closed (Outside, 0) (p @ q)"
    using streamed_doc_never_closed assms(1) by simp
  from never_closed_prefix [OF this False assms(2)] have "scan (Outside, 0) p \<noteq> (Outside, 0)" .
  then show ?thesis
    using JSON_parse_balanced [of p] by (cases "JSON_parse p") auto
qed

lemma streamed_doc_attempt:
  "parse_attempt (js streamed_doc) =
     ([SetAnswer (Val (JStr (js ''final''))), SetSources (Val (JArr [streamed_citation]))], True)"
  by (simp add: parse_attempt_def streamed_doc_parse) (simp add: js_def)

lemma process_chunk_ascii:
  assumes "bytes_needed d = 0" and "\<forall>b\<in>set v. b \<le> 0x7F"
  shows "process_chunk (d, buffer) v =
     (case parse_attempt (buffer @ map unat v) of
        (evs, True) \<Rightarrow> ((d\<lparr>bom_seen := bom_seen d \<or> v \<noteq> []\<rparr>, []), evs)
      | (evs, False) \<Rightarrow>
          ((d\<lparr>bom_seen := bom_seen d \<or> v \<noteq> []\<rparr>, buffer @ map unat v),
           evs @ [SetAnswer (Val (JStr (buffer @ map unat v)))]))"
  by (simp add: process_chunk_def decode_ascii [OF assms] Let_def)

lemma concat_Nil_last: "vs \<noteq> [] \<Longrightarrow> last vs \<noteq> [] \<Longrightarrow> concat vs \<noteq> []"
  by (induction vs) (auto split: if_splits)

lemma streamed_doc_loop:
  assumes "bytes_needed d = 0"
    and "pre @ concat vs = ascii_bytes streamed_doc"
    and "vs \<noteq> []" and "last vs \<noteq> []"
  shows "\<exists>evs. read_loop (d, map unat pre) vs Closed = (evs, None)
    \<and> (\<forall>s. run s evs = s\<lparr>answer := Val (JStr (js ''final'')),
                           sources := Val (JArr [streamed_citation])\<rparr>)"
  using assms
proof (induction vs arbitrary: d pre)
  case Nil
  then show ?case by simp
next
  case (Cons v vs)
  let ?d = "d\<lparr>bom_seen := bom_seen d \<or> v \<noteq> []\<rparr>"
  have small: "\<forall>b\<in>set v. b \<le> 0x7F"
  proof
    fix b assume "b \<in> set v"
    moreover have "set (pre @ concat (v # vs)) = set (ascii_bytes streamed_doc)"
      using Cons.prems(2) by (rule arg_cong)
    ultimately have "b \<in> set (ascii_bytes streamed_doc)" by auto
    then show "b \<le> 0x7F" using ascii_bytes_small [OF streamed_doc_ascii] by blast
  qed
  have whole: "map unat (pre @ v) @ map unat (concat vs) = js streamed_doc"
  proof -
    have "map unat (pre @ v) @ map unat (concat vs) = map unat (pre @ concat (v # vs))" by simp
    also have "\<dots> = js streamed_doc" using Cons.prems(2) unat_ascii_bytes by metis
    finally show ?thesis .
  qed
  show ?case
  proof (cases "vs = []")
    case True
    with whole have "map unat pre @ map unat v = js streamed_doc" by simp
    then have "process_chunk (d, map unat pre) v
        = ((?d, []), [SetAnswer (Val (JStr (js ''final''))), SetSources (Val (JArr [streamed_citation]))])"
      by (simp add: process_chunk_ascii [OF Cons.prems(1) small] streamed_doc_attempt)
    with True show ?thesis by (simp add: finish_Nil)
  next
    case False
    with Cons.prems(4) have last: "last vs \<noteq> []" by simp
    from concat_Nil_last [OF False last] have "map unat (concat vs) \<noteq> []" by simp
    with whole have fail: "JSON_parse (map unat (pre @ v)) = None"
      using streamed_doc_prefix_fails by metis
    then have pc: "process_chunk (d, map unat pre) v
        = ((?d, map unat (pre @ v)), [SetAnswer (Val (JStr (map unat (pre @ v))))])"
      by (simp add: process_chunk_ascii [OF Cons.prems(1) small] parse_attempt_def)
    have "bytes_needed ?d = 0" using Cons.prems(1) by simp
    moreover have "(pre @ v) @ concat vs = ascii_bytes streamed_doc" using Cons.prems(2) by simp
    ultimately obtain evs where evs: "read_loop (?d, map unat (pre @ v)) vs Closed = (evs, None)"
      and st: "\<forall>s. run s evs = s\<lparr>answer := Val (JStr (js ''final'')),
                           sources := Val (JArr [streamed_citation])\<rparr>"
      using Cons.IH [OF _ _ False last] by blast
    from pc evs st show ?thesis by simp
  qed
qed

subsection \<open>The loop, chunk by chunk\<close>

lemma ascii_bytes_Nil: "ascii_bytes s = [] \<longleftrightarrow> s = []"
  by (simp add: ascii_bytes_def)

lemma process_chunk_text:
  assumes "bytes_needed d = 0" and "is_ascii s"
  shows "process_chunk (d, buffer) (ascii_bytes s) =
     (case parse_attempt (buffer @ js s) of
        (evs, True) \<Rightarrow> ((d\<lparr>bom_seen := bom_seen d \<or> s \<noteq> []\<rparr>, []), evs)
      | (evs, False) \<Rightarrow>
          ((d\<lparr>bom_seen := bom_seen d \<or> s \<noteq> []\<rparr>, buffer @ js s),
           evs @ [SetAnswer (Val (JStr (buffer @ js s)))]))"
  using process_chunk_ascii [OF assms(1) ascii_bytes_small [OF assms(2)], of buffer]
  by (auto simp: unat_ascii_bytes ascii_bytes_Nil split: prod.splits bool.splits)

lemma after_chunks_read_loop:
  "read_loop st (vs1 @ vs2) e =
     (case after_chunks st vs1 of
        (st', evs) \<Rightarrow> (case read_loop st' vs2 e of (evs', r) \<Rightarrow> (evs @ evs', r)))"
  by (induction vs1 arbitrary: st) (auto split: prod.splits)

lemma round_trip_doc_parse:
  "JSON_parse (js round_trip_doc) =
     Some (JObj [(js ''answer'', JStr (js ''A'')), (js ''sources'', JArr []),
                 (js ''query'', JStr (js ''q'')), (js ''timestamp'', JStr (js ''t''))])"
  by (simp add: round_trip_doc_def js_def json_eval)

lemma round_trip_doc_ascii: "is_ascii round_trip_doc"
  by (simp add: is_ascii_def round_trip_doc_def)

lemma Hel_attempt: "parse_attempt (js ''Hel'') = ([], False)"
  by (simp add: parse_attempt_def js_def json_eval)

lemma Hello_wor_attempt: "parse_attempt (js ''Hel'' @ js ''lo wor'') = ([], False)"
  by (simp add: parse_attempt_def js_def json_eval)

lemma Hello_world_attempt: "parse_attempt (js ''Hel'' @ js ''lo wor'' @ js ''ld'') = ([], False)"
  by (simp add: parse_attempt_def js_def json_eval)

lemma hello_chunks:
  "after_chunks (new_TextDecoder, []) [ascii_bytes ''Hel''] =
     ((new_TextDecoder\<lparr>bom_seen := True\<rparr>, js ''Hel''),
      [ReaderRead, SetAnswer (Val (JStr (js ''Hel'')))])"
  "after_chunks (new_TextDecoder, []) [ascii_bytes ''Hel'', ascii_bytes ''lo wor''] =
     ((new_TextDecoder\<lparr>bom_seen := True\<rparr>, js ''Hello wor''),
      [ReaderRead, SetAnswer (Val (JStr (js ''Hel''))),
       ReaderRead, SetAnswer (Val (JStr (js ''Hello wor'')))])"
  "after_chunks (new_TextDecoder, []) [ascii_bytes ''Hel'', ascii_bytes ''lo wor'', ascii_bytes ''ld''] =
     ((new_TextDecoder\<lparr>bom_seen := True\<rparr>, js ''Hello world''),
      [ReaderRead, SetAnswer (Val (JStr (js ''Hel''))),
       ReaderRead, SetAnswer (Val (JStr (js ''Hello wor''))),
       ReaderRead, SetAnswer (Val (JStr (js ''Hello world'')))])"
proof -
  have d0: "bytes_needed new_TextDecoder = 0" and d1: "bytes_needed (new_TextDecoder\<lparr>bom_seen := True\<rparr>) = 0"
    by (simp_all add: new_TextDecoder_def)
  have a: "is_ascii ''Hel''" "is_ascii ''lo wor''" "is_ascii ''ld''"
    by (simp_all add: is_ascii_def)
  have 1: "process_chunk (new_TextDecoder, []) (ascii_bytes ''Hel'')
      = ((new_TextDecoder\<lparr>bom_seen := True\<rparr>, js ''Hel''), [SetAnswer (Val (JStr (js ''Hel'')))])"
    using Hel_attempt by (simp add: process_chunk_text [OF d0 a(1)])
  have 2: "process_chunk (new_TextDecoder\<lparr>bom_seen := True\<rparr>, js ''Hel'') (ascii_bytes ''lo wor'')
      = ((new_TextDecoder\<lparr>bom_seen := True\<rparr>, js ''Hello wor''), [SetAnswer (Val (JStr (js ''Hello wor'')))])"
    using Hello_wor_attempt by (simp add: process_chunk_text [OF d1 a(2)]) (simp add: js_def)
  have 3: "process_chunk (new_TextDecoder\<lparr>bom_seen := True\<rparr>, js ''Hello wor'') (ascii_bytes ''ld'')
      = ((new_TextDecoder\<lparr>bom_seen := True\<rparr>, js ''Hello world''), [SetAnswer (Val (JStr (js ''Hello world'')))])"
  proof -
    have "js ''Hello wor'' @ js ''ld'' = js ''Hel'' @ js ''lo wor'' @ js ''ld''"
      "js ''Hello wor'' @ js ''ld'' = js ''Hello world''"
      by (simp_all add: js_def)
    with Hello_world_attempt show ?thesis by (simp add: process_chunk_text [OF d1 a(3)])
  qed
  show "after_chunks (new_TextDecoder, []) [ascii_bytes ''Hel''] =
     ((new_TextDecoder\<lparr>bom_seen := True\<rparr>, js ''Hel''),
      [ReaderRead, SetAnswer (Val (JStr (js ''Hel'')))])"
    by (simp add: 1)
  show "after_chunks (new_TextDecoder, []) [ascii_bytes ''Hel'', ascii_bytes ''lo wor''] =
     ((new_TextDecoder\<lparr>bom_seen := True\<rparr>, js ''Hello wor''),
      [ReaderRead, SetAnswer (Val (JStr (js ''Hel''))),
       ReaderRead, SetAnswer (Val (JStr (js ''Hello wor'')))])"
    by (simp add: 1 2)
  show "after_chunks (new_TextDecoder, []) [ascii_bytes ''Hel'', ascii_bytes ''lo wor'', ascii_bytes ''ld''] =
     ((new_TextDecoder\<lparr>bom_seen := True\<rparr>, js ''Hello world''),
      [ReaderRead, SetAnswer (Val (JStr (js ''Hel''))),
       ReaderRead, SetAnswer (Val (JStr (js ''Hello wor''))),
       ReaderRead, SetAnswer (Val (JStr (js ''Hello world'')))])"
    by (simp add: 1 2 3)
qed

lemma finish_Hello_world: "finish (js ''Hello world'') = []"
  by (rule finish_failed) (simp add: parse_attempt_def js_def json_eval)

subsection \<open>Counting the calls of \<open>setSources\<close>\<close>

lemma source_updates_simps [simp]:
  "source_updates [] = 0"
  "source_updates (e # evs) = (if is_SetSources e then 1 else 0) + source_updates evs"
  "source_updates (xs @ ys) = source_updates xs + source_updates ys"
  by (simp_all add: source_updates_def)

lemma parse_attempt_updates: "source_updates (fst (parse_attempt buffer)) \<le> 1"
  by (simp add: parse_attempt_def split: option.splits)

lemma process_chunk_updates: "source_updates (snd (process_chunk st v)) \<le> 1"
proof -
  obtain d buffer where st: "st = (d, buffer)" by (cases st)
  obtain d' chunk where dec: "decode d v = (d', chunk)" by (cases "decode d v")
  obtain evs b where pa: "parse_attempt (buffer @ chunk) = (evs, b)"
    by (cases "parse_attempt (buffer @ chunk)")
  with parse_attempt_updates [of "buffer @ chunk"] have "source_updates evs \<le> 1" by simp
  with st dec pa show ?thesis by (cases b) (simp_all add: process_chunk_def Let_def)
qed

lemma read_loop_updates:
  "finish (snd st) = [] \<Longrightarrow> source_updates (fst (read_loop st vs e)) \<le> length vs"
proof (induction vs arbitrary: st)
  case Nil
  then show ?case by (cases e) simp_all
next
  case (Cons v vs)
  obtain st' evs where pc: "process_chunk st v = (st', evs)" by (cases "process_chunk st v")
  obtain evs' res where rl: "read_loop st' vs e = (evs', res)" by (cases "read_loop st' vs e")
  have "finish (snd st') = []"
    using finish_after_chunk [of st v] pc by simp
  from Cons.IH [OF this] rl have "source_updates evs' \<le> length vs" by simp
  moreover have "source_updates evs \<le> 1"
    using process_chunk_updates [of st v] pc by simp
  ultimately show ?case using pc rl by simp
qed

lemma read_stream_updates: "source_updates (fst (read_stream b)) \<le> length (chunks b)"
proof -
  obtain evs res where rl: "read_loop (new_TextDecoder, []) (chunks b) (ending b) = (evs, res)"
    by (cases "read_loop (new_TextDecoder, []) (chunks b) (ending b)")
  with read_loop_updates [of "(new_TextDecoder, [])" "chunks b" "ending b"]
  have "source_updates evs \<le> length (chunks b)" by (simp add: finish_Nil)
  with rl show ?thesis by (cases res) (simp_all add: read_stream_def)
qed

lemma read_json_updates: "source_updates (fst (read_json pf r)) \<le> 1"
  by (simp add: read_json_def split: sum.splits option.splits)

lemma source_values_append: "source_values (xs @ ys) = source_values xs @ source_values ys"
  by (induction xs rule: source_values.induct) simp_all

lemma source_updates_length: "source_updates evs = length (source_values evs)"
  by (induction evs rule: source_values.induct) simp_all

lemma truthy_falsy: "truthy v \<longleftrightarrow> \<not> falsy v"
proof (cases v)
  case Undefined
  then show ?thesis by (simp add: falsy_def)
next
  case (Val j)
  then show ?thesis by (cases j) (auto simp: falsy_def)
qed

lemma get_prop_member: "v \<noteq> JNull \<Longrightarrow> get_prop v name = Some (member_of v name)"
  by (cases v) (auto split: option.splits)

lemma parse_attempt_null: "JSON_parse buffer = Some JNull \<Longrightarrow> parse_attempt buffer = ([], False)"
  by (simp add: parse_attempt_def)

lemma parse_attempt_none: "JSON_parse buffer = None \<Longrightarrow> parse_attempt buffer = ([], False)"
  by (simp add: parse_attempt_def)

lemma parse_attempt_document:
  assumes "JSON_parse buffer = Some document" and "document \<noteq> JNull"
  shows "parse_attempt buffer =
     (SetAnswer (member_of document (js ''answer''))
        # (if falsy (member_of document (js ''sources'')) then []
           else [SetSources (member_of document (js ''sources''))]), True)"
  using assms by (simp add: parse_attempt_def get_prop_member truthy_falsy)

lemma read_loop_values:
  "finish buffer = [] \<Longrightarrow> source_values (fst (read_loop (d, buffer) vs e)) = chunk_sources d buffer vs"
proof (induction vs arbitrary: d buffer)
  case Nil
  then show ?case by (cases e) simp_all
next
  case (Cons v vs)
  obtain d' chunk where dec: "decode d v = (d', chunk)" by (cases "decode d v")
  show ?case
  proof (cases "JSON_parse (buffer @ chunk)")
    case None
    then have pa: "parse_attempt (buffer @ chunk) = ([], False)" by (rule parse_attempt_none)
    then have "finish (buffer @ chunk) = []" by (simp add: finish_failed)
    from Cons.IH [OF this, of d'] obtain evs res
      where rl: "read_loop (d', buffer @ chunk) vs e = (evs, res)"
        and "source_values evs = chunk_sources d' (buffer @ chunk) vs"
      by (cases "read_loop (d', buffer @ chunk) vs e") auto
    with dec None pa show ?thesis
      by (simp add: process_chunk_def Let_def source_values_append)
  next
    case (Some document)
    show ?thesis
    proof (cases "document = JNull")
      case True
      with Some have pa: "parse_attempt (buffer @ chunk) = ([], False)"
        by (simp add: parse_attempt_null)
      then have "finish (buffer @ chunk) = []" by (simp add: finish_failed)
      from Cons.IH [OF this, of d'] obtain evs res
        where rl: "read_loop (d', buffer @ chunk) vs e = (evs, res)"
          and "source_values evs = chunk_sources d' (buffer @ chunk) vs"
        by (cases "read_loop (d', buffer @ chunk) vs e") auto
      with dec Some True pa show ?thesis
        by (simp add: process_chunk_def Let_def source_values_append)
    next
      case False
      note pa = parse_attempt_document [OF Some False]
      from Cons.IH [OF finish_Nil, of d'] obtain evs res
        where rl: "read_loop (d', []) vs e = (evs, res)"
          and "source_values evs = chunk_sources d' [] vs"
        by (cases "read_loop (d', []) vs e") auto
      with dec Some False pa show ?thesis
        by (simp add: process_chunk_def Let_def source_values_append)
    qed
  qed
qed

lemma read_stream_values:
  "source_values (fst (read_stream b)) = chunk_sources new_TextDecoder [] (chunks b)"
proof -
  obtain evs res where rl: "read_loop (new_TextDecoder, []) (chunks b) (ending b) = (evs, res)"
    by (cases "read_loop (new_TextDecoder, []) (chunks b) (ending b)")
  with read_loop_values [OF finish_Nil, of new_TextDecoder "chunks b" "ending b"]
  have "source_values evs = chunk_sources new_TextDecoder [] (chunks b)" by simp
  with rl show ?thesis
    by (cases res) (simp_all add: read_stream_def source_values_append)
qed

lemma read_json_values:
  "source_values (fst (read_json pf r)) =
     (case response_json pf r of
        Inl t \<Rightarrow> []
      | Inr document \<Rightarrow> if document = JNull then [] else [member_of document (js ''sources'')])"
proof (cases "response_json pf r")
  case (Inl t)
  then show ?thesis by (simp add: read_json_def)
next
  case (Inr document)
  then show ?thesis
    by (cases "document = JNull") (simp_all add: read_json_def get_prop_member)
qed

lemma try_body_values: "source_values (fst (try_body pf request fr)) = expected_sources pf fr"
proof (cases fr)
  case (Rejected t)
  then show ?thesis by (simp add: try_body_def expected_sources_def)
next
  case (Resolved r)
  obtain jevs jres where rj: "read_json pf r = (jevs, jres)" by (cases "read_json pf r")
  show ?thesis
  proof (cases "body r")
    case None
    with Resolved rj read_json_values [of pf r] show ?thesis
      by (simp add: try_body_def expected_sources_def)
  next
    case (Some b)
    obtain sevs sres where rs: "read_stream b = (sevs, sres)" by (cases "read_stream b")
    with Resolved Some rj read_json_values [of pf r] read_stream_values [of b] show ?thesis
      by (simp add: try_body_def expected_sources_def)
  qed
qed

lemma sources_run: "sources (run s evs) = last (sources s # source_values evs)"
proof (induction evs arbitrary: s)
  case Nil
  then show ?case by simp
next
  case (Cons a evs)
  then show ?case by (cases a) simp_all
qed

lemma query_sources:
  "sources (run s (fst (query pf request fr))) = last (Val (JArr []) # expected_sources pf fr)"
proof -
  obtain evs res where tb: "try_body pf request fr = (evs, res)" by (cases "try_body pf request fr")
  with try_body_values [of pf request fr] have ev: "source_values evs = expected_sources pf fr"
    by simp
  have "source_values (fst (query pf request fr)) = Val (JArr []) # expected_sources pf fr"
    using tb ev
    by (cases res) (simp_all add: query_def query_start_def query_catch_def source_values_append)
  then show ?thesis by (simp add: sources_run)
qed


subsection \<open>The examples\<close>

lemma first_doc_attempt:
  "parse_attempt (js first_doc) =
     ([SetAnswer (Val (JStr (js ''a''))), SetSources (Val (JArr [streamed_citation]))], True)"
  by (simp add: parse_attempt_def first_doc_def streamed_citation_def js_def json_eval)

lemma second_doc_attempt:
  "parse_attempt (js second_doc) =
     ([SetAnswer (Val (JStr (js ''b''))), SetSources (Val (JArr [second_citation]))], True)"
  by (simp add: parse_attempt_def second_doc_def second_citation_def js_def json_eval)

lemma null_attempt: "parse_attempt (js ''null'') = ([], False)"
  by (simp add: parse_attempt_def js_def json_eval)

lemma null_parse: "JSON_parse (js ''null'') = Some JNull"
  by (simp add: js_def json_eval)

lemma number_parse: "JSON_parse (js ''42'') = Some (JNum 42 0)"
  by (simp add: js_def json_eval)

lemma example_ascii:
  "is_ascii first_doc" "is_ascii second_doc" "is_ascii ''null''" "is_ascii ''42''" "is_ascii ''Hel''"
  by (simp_all add: is_ascii_def first_doc_def second_doc_def)

lemma decoder_ready:
  "bytes_needed new_TextDecoder = 0" "bytes_needed (new_TextDecoder\<lparr>bom_seen := True\<rparr>) = 0"
  by (simp_all add: new_TextDecoder_def)

lemma example_ok:
  "ok two_documents" "\<not> is_json two_documents"
  "ok null_body" "\<not> is_json null_body"
  "ok number_body" "\<not> is_json number_body"
  "ok broken_stream" "\<not> is_json broken_stream"
  by (simp_all add: ok_def is_json_def js_def two_documents_def null_body_def number_body_def
      broken_stream_def)

lemma lacks_field_get_prop:
  "lacks_field v name \<Longrightarrow> v \<noteq> JNull \<Longrightarrow> get_prop v name = Some Undefined"
proof (cases v)
  case (JObj members)
  assume "lacks_field v name"
  with JObj have "name \<notin> fst ` set (rev members)" by simp
  then have "map_of (rev members) name = None" by (simp add: map_of_eq_None_iff)
  with JObj show ?thesis by simp
qed simp_all

lemma after_chunks_events:
  assumes "after_chunks st vs1 = (st1, evs1)"
  shows "set (snd (process_chunk st1 v)) \<subseteq> set (fst (read_loop st (vs1 @ v # vs2) e))"
proof -
  obtain st2 evs2 where pc: "process_chunk st1 v = (st2, evs2)" by (cases "process_chunk st1 v")
  obtain evs3 res where rl: "read_loop st2 vs2 e = (evs3, res)" by (cases "read_loop st2 vs2 e")
  from assms pc rl show ?thesis
    by (auto simp: after_chunks_read_loop)
qed

lemma query_stream_events:
  assumes "ok r" and "\<not> is_json r" and "body r = Some b"
  shows "set (fst (read_loop (new_TextDecoder, []) (chunks b) (ending b)))
    \<subseteq> set (fst (query pf request (Resolved r)))"
proof -
  obtain evs res where rl: "read_loop (new_TextDecoder, []) (chunks b) (ending b) = (evs, res)"
    by (cases "read_loop (new_TextDecoder, []) (chunks b) (ending b)")
  with assms show ?thesis
    by (cases res) (auto simp: query_def try_body_def read_stream_def)
qed

subsection \<open>When the \<open>try\<close> block throws\<close>

lemma read_loop_result:
  "snd (read_loop st vs e) = (case e of Closed \<Rightarrow> None | Errored t \<Rightarrow> Some t)"
proof (induction vs arbitrary: st)
  case Nil
  then show ?case by (cases e) simp_all
next
  case (Cons v vs)
  obtain st' evs where pc: "process_chunk st v = (st', evs)" by (cases "process_chunk st v")
  obtain evs' res where rl: "read_loop st' vs e = (evs', res)" by (cases "read_loop st' vs e")
  from Cons.IH [of st'] pc rl show ?case by simp
qed

lemma read_stream_throws: "snd (read_stream b) \<noteq> None \<longleftrightarrow> ending b \<noteq> Closed"
proof -
  obtain evs res where rl: "read_loop (new_TextDecoder, []) (chunks b) (ending b) = (evs, res)"
    by (cases "read_loop (new_TextDecoder, []) (chunks b) (ending b)")
  with read_loop_result [of "(new_TextDecoder, [])" "chunks b" "ending b"]
  show ?thesis by (cases "ending b") (auto simp: read_stream_def)
qed

lemma try_body_throws:
  "snd (try_body pf request fr) \<noteq> None \<longleftrightarrow>
     (case fr of
        Rejected t \<Rightarrow> True
      | Resolved r \<Rightarrow>
          if \<not> ok r then True
          else if is_json r then snd (read_json pf r) \<noteq> None
          else (case body r of None \<Rightarrow> True | Some b \<Rightarrow> ending b \<noteq> Closed))"
proof (cases fr)
  case (Rejected t)
  then show ?thesis by (simp add: try_body_def)
next
  case (Resolved r)
  show ?thesis
  proof (cases "body r")
    case None
    with Resolved show ?thesis
      by (cases "read_json pf r") (simp add: try_body_def)
  next
    case (Some b)
    with Resolved read_stream_throws [of b] show ?thesis
      by (cases "read_json pf r"; cases "read_stream b") (simp add: try_body_def)
  qed
qed

subsection \<open>An empty chunk after the document\<close>

text \<open>
  A chunk of no bytes that arrives after the buffer has been parsed and cleared makes
  \<open>JSON.parse\<close> run on the empty text, and the \<open>catch\<close> sets \<open>answer\<close> to the empty buffer.
\<close>

lemma empty_attempt: "parse_attempt [] = ([], False)"
  by (simp add: parse_attempt_def JSON_parse_empty)

lemma trailing_empty_chunk:
  "answer (run initial_state (fst (query example_platform example_request
     (Resolved \<lparr>status = 200, statusText = js ''OK'', content_type = Some (js ''text/plain''),
                body = Some \<lparr>chunks = [ascii_bytes streamed_doc, []], ending = Closed\<rparr>\<rparr>))))
   = Val (JStr [])"
proof -
  have 1: "process_chunk (new_TextDecoder, []) (ascii_bytes streamed_doc)
      = ((new_TextDecoder\<lparr>bom_seen := True\<rparr>, []),
         [SetAnswer (Val (JStr (js ''final''))), SetSources (Val (JArr [streamed_citation]))])"
    using streamed_doc_attempt
    by (simp add: process_chunk_text [OF decoder_ready(1) streamed_doc_ascii])
       (simp add: streamed_doc_def)
  have "is_ascii []" by (simp add: is_ascii_def)
  from process_chunk_text [OF decoder_ready(2) this, of "[]"]
  have 2: "process_chunk (new_TextDecoder\<lparr>bom_seen := True\<rparr>, []) []
      = ((new_TextDecoder\<lparr>bom_seen := True\<rparr>, []), [SetAnswer (Val (JStr []))])"
    by (simp add: ascii_bytes_def js_def empty_attempt)
  have "read_stream \<lparr>chunks = [ascii_bytes streamed_doc, []], ending = Closed\<rparr>
      = ([GetReader, ReaderRead, SetAnswer (Val (JStr (js ''final''))),
          SetSources (Val (JArr [streamed_citation])), ReaderRead, SetAnswer (Val (JStr [])),
          ReaderRead], None)"
    by (simp add: read_stream_def 1 2 finish_Nil)
  then show ?thesis
    by (simp add: query_def try_body_def ok_def is_json_def query_start_def js_def)
qed

section \<open>The claims\<close>

text \<open>
  C1. Let the response have a status in 200 to 299, a content type that is not JSON and a
  body whose chunks, concatenated, are the bytes of the document \<open>streamed_doc\<close>, the last
  chunk not empty (as in every partition of the bytes into non-empty chunks), and let the
  stream end normally. Then \<open>query\<close> ends with \<open>answer\<close> equal to \<open>final\<close> and \<open>sources\<close>
  equal to the one citation of the document, wherever the chunk boundaries are; \<open>error\<close>
  is \<open>null\<close> and \<open>isLoading\<close> false.
\<close>

theorem streaming_json_reveal:
  assumes "ok r" and "\<not> is_json r" and "body r = Some b" and "ending b = Closed"
    and "concat (chunks b) = ascii_bytes streamed_doc"
    and "last (chunks b) \<noteq> []"
  shows "answer (run s (fst (query pf request (Resolved r)))) = Val (JStr (js ''final''))
    \<and> sources (run s (fst (query pf request (Resolved r)))) = Val (JArr [streamed_citation])
    \<and> error (run s (fst (query pf request (Resolved r)))) = None
    \<and> isLoading (run s (fst (query pf request (Resolved r)))) = False"
proof -
  have "chunks b \<noteq> []"
    using assms(5) by (auto simp: ascii_bytes_def streamed_doc_def)
  with streamed_doc_loop [of new_TextDecoder "[]" "chunks b"] assms(5,6)
  obtain evs where evs: "read_loop (new_TextDecoder, []) (chunks b) Closed = (evs, None)"
    and st: "\<forall>s. run s evs = s\<lparr>answer := Val (JStr (js ''final'')),
                           sources := Val (JArr [streamed_citation])\<rparr>"
    by (auto simp: new_TextDecoder_def)
  have "fst (query pf request (Resolved r))
      = query_start @ [Fetch (endpoint_of pf) request, HeadersGet, GetReader] @ evs @ [SetIsLoading False]"
    using assms(1-4) evs by (simp add: query_def try_body_def read_stream_def)
  then show ?thesis
    by (simp add: run_append st query_start_def)
qed

theorem streaming_json_reveal_witness:
  "ok \<lparr>status = 200, statusText = js ''OK'', content_type = Some (js ''text/plain''),
       body = Some \<lparr>chunks = [take 30 (ascii_bytes streamed_doc), drop 30 (ascii_bytes streamed_doc)],
                     ending = Closed\<rparr>\<rparr>
   \<and> concat [take 30 (ascii_bytes streamed_doc), drop 30 (ascii_bytes streamed_doc)]
       = ascii_bytes streamed_doc
   \<and> drop 30 (ascii_bytes streamed_doc) \<noteq> []
   \<and> answer (run initial_state (fst (query example_platform example_request
        (Resolved \<lparr>status = 200, statusText = js ''OK'', content_type = Some (js ''text/plain''),
           body = Some \<lparr>chunks = [take 30 (ascii_bytes streamed_doc), drop 30 (ascii_bytes streamed_doc)],
                         ending = Closed\<rparr>\<rparr>))))
       = Val (JStr (js ''final''))
   \<and> sources (run initial_state (fst (query example_platform example_request
        (Resolved \<lparr>status = 200, statusText = js ''OK'', content_type = Some (js ''text/plain''),
           body = Some \<lparr>chunks = [take 30 (ascii_bytes streamed_doc), drop 30 (ascii_bytes streamed_doc)],
                         ending = Closed\<rparr>\<rparr>))))
       = Val (JArr [streamed_citation])"
  using streaming_json_reveal [of
      "\<lparr>status = 200, statusText = js ''OK'', content_type = Some (js ''text/plain''),
        body = Some \<lparr>chunks = [take 30 (ascii_bytes streamed_doc), drop 30 (ascii_bytes streamed_doc)],
                      ending = Closed\<rparr>\<rparr>"
      "\<lparr>chunks = [take 30 (ascii_bytes streamed_doc), drop 30 (ascii_bytes streamed_doc)],
        ending = Closed\<rparr>"
      initial_state example_platform example_request]
  by (simp add: ok_def is_json_def js_def ascii_bytes_def streamed_doc_def)

text \<open>
  C2. Let the response have a status in 200 to 299, a content type that is not JSON and a
  body that delivers the chunks \<open>Hel\<close>, \<open>lo wor\<close>, \<open>ld\<close> and then ends. After each chunk
  the buffer is what has arrived so far (\<open>Hel\<close>, \<open>Hello wor\<close>, \<open>Hello world\<close>) and
  \<open>answer\<close> equals the buffer; at the end of \<open>query\<close>, which only adds the last read and
  the clearing of \<open>isLoading\<close>, \<open>answer\<close> is \<open>Hello world\<close>.
\<close>

theorem streaming_plain_text_reveal:
  assumes "ok r" and "\<not> is_json r"
    and "body r = Some \<lparr>chunks = [ascii_bytes ''Hel'', ascii_bytes ''lo wor'', ascii_bytes ''ld''],
                         ending = Closed\<rparr>"
  shows "snd (fst (after_chunks (new_TextDecoder, []) [ascii_bytes ''Hel''])) = js ''Hel''
    \<and> answer (run s (query_after_chunks pf request [ascii_bytes ''Hel''])) = Val (JStr (js ''Hel''))
    \<and> snd (fst (after_chunks (new_TextDecoder, []) [ascii_bytes ''Hel'', ascii_bytes ''lo wor'']))
        = js ''Hello wor''
    \<and> answer (run s (query_after_chunks pf request [ascii_bytes ''Hel'', ascii_bytes ''lo wor'']))
        = Val (JStr (js ''Hello wor''))
    \<and> snd (fst (after_chunks (new_TextDecoder, [])
          [ascii_bytes ''Hel'', ascii_bytes ''lo wor'', ascii_bytes ''ld''])) = js ''Hello world''
    \<and> answer (run s (query_after_chunks pf request
          [ascii_bytes ''Hel'', ascii_bytes ''lo wor'', ascii_bytes ''ld''])) = Val (JStr (js ''Hello world''))
    \<and> fst (query pf request (Resolved r))
        = query_after_chunks pf request [ascii_bytes ''Hel'', ascii_bytes ''lo wor'', ascii_bytes ''ld'']
          @ [ReaderRead, SetIsLoading False]
    \<and> answer (run s (fst (query pf request (Resolved r)))) = Val (JStr (js ''Hello world''))"
proof -
  have "read_loop (new_TextDecoder, []) ([ascii_bytes ''Hel'', ascii_bytes ''lo wor'', ascii_bytes ''ld''] @ []) Closed
      = ([ReaderRead, SetAnswer (Val (JStr (js ''Hel''))),
          ReaderRead, SetAnswer (Val (JStr (js ''Hello wor''))),
          ReaderRead, SetAnswer (Val (JStr (js ''Hello world''))), ReaderRead], None)"
    unfolding after_chunks_read_loop
    by (simp del: after_chunks.simps add: hello_chunks finish_Hello_world)
  then have "fst (query pf request (Resolved r))
        = query_after_chunks pf request [ascii_bytes ''Hel'', ascii_bytes ''lo wor'', ascii_bytes ''ld'']
          @ [ReaderRead, SetIsLoading False]"
    using assms
    by (simp del: after_chunks.simps
        add: query_def try_body_def read_stream_def query_after_chunks_def hello_chunks)
  then show ?thesis
    by (simp del: after_chunks.simps
        add: query_after_chunks_def hello_chunks run_append query_start_def)
qed

theorem streaming_plain_text_reveal_witness:
  "ok hello_stream \<and> \<not> is_json hello_stream
   \<and> answer (run initial_state (query_after_chunks example_platform example_request
         [ascii_bytes ''Hel''])) = Val (JStr (js ''Hel''))
   \<and> answer (run initial_state (query_after_chunks example_platform example_request
         [ascii_bytes ''Hel'', ascii_bytes ''lo wor''])) = Val (JStr (js ''Hello wor''))
   \<and> answer (run initial_state (fst (query example_platform example_request (Resolved hello_stream))))
       = Val (JStr (js ''Hello world''))"
proof -
  have 1: "ok hello_stream" and 2: "\<not> is_json hello_stream"
    by (simp_all add: hello_stream_def ok_def is_json_def js_def)
  have 3: "body hello_stream
      = Some \<lparr>chunks = [ascii_bytes ''Hel'', ascii_bytes ''lo wor'', ascii_bytes ''ld''],
               ending = Closed\<rparr>"
    by (simp add: hello_stream_def)
  from streaming_plain_text_reveal [OF 1 2 3, of initial_state example_platform example_request] 1 2
  show ?thesis by blast
qed

text \<open>
  C3. Let the response have a status in 200 to 299, a content type that contains
  \<open>application/json\<close> and a body whose bytes are the document \<open>round_trip_doc\<close>. Then
  \<open>query\<close> ends with \<open>answer\<close> equal to \<open>A\<close>, \<open>sources\<close> the empty array, \<open>error\<close> \<open>null\<close>
  and \<open>isLoading\<close> false.
\<close>

theorem json_round_trip:
  assumes "ok r" and "is_json r" and "body r = Some b" and "ending b = Closed"
    and "concat (chunks b) = ascii_bytes round_trip_doc"
  shows "answer (run s (fst (query pf request (Resolved r)))) = Val (JStr (js ''A''))
    \<and> sources (run s (fst (query pf request (Resolved r)))) = Val (JArr [])
    \<and> error (run s (fst (query pf request (Resolved r)))) = None
    \<and> isLoading (run s (fst (query pf request (Resolved r)))) = False"
proof -
  have "utf8_decode (concat (chunks b)) = js round_trip_doc"
    using assms(5) utf8_decode_ascii [OF ascii_bytes_small [OF round_trip_doc_ascii]]
    by (simp add: unat_ascii_bytes)
  then have "response_json pf r =
      Inr (JObj [(js ''answer'', JStr (js ''A'')), (js ''sources'', JArr []),
                 (js ''query'', JStr (js ''q'')), (js ''timestamp'', JStr (js ''t''))])"
    using assms(3,4) by (simp add: response_json_def round_trip_doc_parse)
  then have "read_json pf r
      = ([ResponseJson, SetAnswer (Val (JStr (js ''A''))), SetSources (Val (JArr []))], None)"
    by (simp add: read_json_def) (simp add: js_def)
  then show ?thesis
    using assms(1,2) by (simp add: query_def try_body_def query_start_def)
qed

theorem json_round_trip_witness:
  "ok json_response \<and> is_json json_response
   \<and> answer (run initial_state (fst (query example_platform example_request (Resolved json_response))))
       = Val (JStr (js ''A''))
   \<and> sources (run initial_state (fst (query example_platform example_request (Resolved json_response))))
       = Val (JArr [])
   \<and> error (run initial_state (fst (query example_platform example_request (Resolved json_response))))
       = None
   \<and> isLoading (run initial_state (fst (query example_platform example_request (Resolved json_response))))
       = False"
proof -
  have 1: "ok json_response" and 2: "is_json json_response"
    by (simp_all add: json_response_def ok_def is_json_def string_includes_self)
  have 3: "body json_response = Some \<lparr>chunks = [ascii_bytes round_trip_doc], ending = Closed\<rparr>"
    by (simp add: json_response_def)
  from json_round_trip [OF 1 2 3, of initial_state example_platform example_request] 1 2
  show ?thesis by simp
qed

text \<open>
  C4, as the code has it. After the initial clearing, \<open>query\<close> assigns \<open>sources\<close> exactly
  as \<open>expected_sources\<close> says, in that order: never when the request is rejected, the status
  is outside 200 to 299 or the body is missing; once, with the member \<open>sources\<close> of the
  document, for a response read as JSON whose body is a JSON value other than \<open>null\<close>; and,
  for a response read as a stream, once for every chunk at which the text accumulated
  since the last complete document parses as a JSON value other than \<open>null\<close> whose member
  \<open>sources\<close> is not falsy, with that member as the value: at most once for each chunk,
  and more than once when the stream carries several complete documents. Nothing is
  merged: at the end of \<open>query\<close>, \<open>sources\<close> is the last value assigned, the empty array of
  the initial clearing if there was none.
\<close>

theorem sources_populated_once_per_chunk:
  "source_values (fst (try_body pf request fr)) = expected_sources pf fr
   \<and> sources (run s (fst (query pf request fr))) = last (Val (JArr []) # expected_sources pf fr)
   \<and> source_updates (fst (try_body pf request fr)) = length (expected_sources pf fr)
   \<and> length (expected_sources pf fr) \<le>
       (case fr of
          Rejected t \<Rightarrow> 0
        | Resolved r \<Rightarrow>
            if \<not> ok r then 0
            else if is_json r then 1
            else (case body r of None \<Rightarrow> 0 | Some b \<Rightarrow> length (chunks b)))"
proof -
  have vals: "source_values (fst (try_body pf request fr)) = expected_sources pf fr"
    by (rule try_body_values)
  then have count: "source_updates (fst (try_body pf request fr)) = length (expected_sources pf fr)"
    by (simp add: source_updates_length)
  have "source_updates (fst (try_body pf request fr)) \<le>
       (case fr of
          Rejected t \<Rightarrow> 0
        | Resolved r \<Rightarrow>
            if \<not> ok r then 0
            else if is_json r then 1
            else (case body r of None \<Rightarrow> 0 | Some b \<Rightarrow> length (chunks b)))"
  proof (cases fr)
    case (Rejected t)
    then show ?thesis by (simp add: try_body_def)
  next
    case (Resolved r)
    show ?thesis
    proof (cases "ok r")
      case False
      with Resolved show ?thesis by (simp add: try_body_def)
    next
      case True
      show ?thesis
      proof (cases "is_json r")
        case json: True
        obtain evs res where "read_json pf r = (evs, res)" by (cases "read_json pf r")
        with read_json_updates [of pf r] Resolved True json show ?thesis
          by (simp add: try_body_def)
      next
        case stream: False
        show ?thesis
        proof (cases "body r")
          case None
          with Resolved True stream show ?thesis by (simp add: try_body_def)
        next
          case (Some b)
          obtain evs res where "read_stream b = (evs, res)" by (cases "read_stream b")
          with read_stream_updates [of b] Resolved True stream Some show ?thesis
            by (simp add: try_body_def)
        qed
      qed
    qed
  qed
  with vals count query_sources [of s pf request fr] show ?thesis by simp
qed

text \<open>
  C4 as stated (\<open>sources\<close> is given a value other than the initial one at most once) fails
  for a stream of two chunks that are each a complete document: \<open>setSources\<close> is called
  for both, with two different lists of one citation, neither of them the initial empty
  array.
\<close>

theorem sources_populated_twice:
  "source_values (fst (try_body example_platform example_request (Resolved two_documents)))
     = [Val (JArr [streamed_citation]), Val (JArr [second_citation])]
   \<and> Val (JArr [streamed_citation]) \<noteq> sources initial_state
   \<and> Val (JArr [second_citation]) \<noteq> sources initial_state
   \<and> Val (JArr [streamed_citation]) \<noteq> Val (JArr [second_citation])
   \<and> source_updates (fst (try_body example_platform example_request (Resolved two_documents))) = 2
   \<and> \<not> source_updates (fst (try_body example_platform example_request (Resolved two_documents))) \<le> 1"
proof -
  have 1: "process_chunk (new_TextDecoder, []) (ascii_bytes first_doc)
      = ((new_TextDecoder\<lparr>bom_seen := True\<rparr>, []),
         [SetAnswer (Val (JStr (js ''a''))), SetSources (Val (JArr [streamed_citation]))])"
    using first_doc_attempt
    by (simp add: process_chunk_text [OF decoder_ready(1) example_ascii(1)]) (simp add: first_doc_def)
  have 2: "process_chunk (new_TextDecoder\<lparr>bom_seen := True\<rparr>, []) (ascii_bytes second_doc)
      = ((new_TextDecoder\<lparr>bom_seen := True\<rparr>, []),
         [SetAnswer (Val (JStr (js ''b''))), SetSources (Val (JArr [second_citation]))])"
    using second_doc_attempt
    by (simp add: process_chunk_text [OF decoder_ready(2) example_ascii(2)])
  have "read_stream \<lparr>chunks = [ascii_bytes first_doc, ascii_bytes second_doc], ending = Closed\<rparr>
      = ([GetReader, ReaderRead, SetAnswer (Val (JStr (js ''a''))),
          SetSources (Val (JArr [streamed_citation])),
          ReaderRead, SetAnswer (Val (JStr (js ''b''))),
          SetSources (Val (JArr [second_citation])), ReaderRead], None)"
    by (simp add: read_stream_def 1 2 finish_Nil)
  then have "fst (try_body example_platform example_request (Resolved two_documents))
      = [Fetch (endpoint_of example_platform) example_request, HeadersGet,
         GetReader, ReaderRead, SetAnswer (Val (JStr (js ''a''))),
         SetSources (Val (JArr [streamed_citation])),
         ReaderRead, SetAnswer (Val (JStr (js ''b''))),
         SetSources (Val (JArr [second_citation])), ReaderRead]"
    using example_ok(1,2) by (simp add: try_body_def) (simp add: two_documents_def)
  moreover have "Val (JArr [streamed_citation]) \<noteq> Val (JArr [second_citation])"
    by (simp add: streamed_citation_def second_citation_def js_def)
  ultimately show ?thesis
    by (simp add: initial_state_def)
qed

text \<open>
  C10, as the code has it. Let a response be read as a stream, and let the buffer after
  one of its chunks parse as a JSON value other than \<open>null\<close> that has no member \<open>answer\<close>
  (a number, a string, a boolean, an array, an object without that member). Then \<open>query\<close>
  calls \<open>setAnswer(undefined)\<close>, as the first effect of that chunk, and clears the buffer.
\<close>

theorem undefined_answer:
  assumes "ok r" and "\<not> is_json r" and "body r = Some b"
    and "chunks b = vs1 @ v # vs2"
    and "after_chunks (new_TextDecoder, []) vs1 = ((d, buffer), evs1)"
    and "JSON_parse (buffer @ snd (decode d v)) = Some jsonData"
    and "jsonData \<noteq> JNull"
    and "lacks_field jsonData (js ''answer'')"
  shows "SetAnswer Undefined \<in> set (fst (query pf request (Resolved r)))
    \<and> hd (snd (process_chunk (d, buffer) v)) = SetAnswer Undefined
    \<and> snd (fst (process_chunk (d, buffer) v)) = []"
proof -
  obtain d' chunk where dec: "decode d v = (d', chunk)" by (cases "decode d v")
  have "get_prop jsonData (js ''answer'') = Some Undefined"
    using assms(7,8) by (simp add: lacks_field_get_prop)
  moreover obtain src where "get_prop jsonData (js ''sources'') = Some src"
    using assms(7) get_prop_None [of jsonData "js ''sources''"] by (cases "get_prop jsonData (js ''sources'')") auto
  ultimately have "parse_attempt (buffer @ chunk)
      = (SetAnswer Undefined # (if truthy src then [SetSources src] else []), True)"
    using assms(6) dec by (simp add: parse_attempt_def)
  then have pc: "process_chunk (d, buffer) v
      = ((d', []), SetAnswer Undefined # (if truthy src then [SetSources src] else []))"
    using dec by (simp add: process_chunk_def)
  then have "SetAnswer Undefined \<in> set (snd (process_chunk (d, buffer) v))" by simp
  with after_chunks_events [OF assms(5), of v vs2 "ending b"] assms(4)
  have "SetAnswer Undefined \<in> set (fst (read_loop (new_TextDecoder, []) (chunks b) (ending b)))"
    by auto
  with query_stream_events [OF assms(1-3), of pf request] pc show ?thesis by auto
qed

theorem undefined_answer_witness:
  "ok number_body \<and> \<not> is_json number_body
   \<and> JSON_parse ([] @ snd (decode new_TextDecoder (ascii_bytes ''42''))) = Some (JNum 42 0)
   \<and> lacks_field (JNum 42 0) (js ''answer'')
   \<and> SetAnswer Undefined \<in> set (fst (query example_platform example_request (Resolved number_body)))
   \<and> snd (fst (process_chunk (new_TextDecoder, []) (ascii_bytes ''42''))) = []"
proof -
  have dec: "snd (decode new_TextDecoder (ascii_bytes ''42'')) = js ''42''"
    using decode_ascii [OF decoder_ready(1) ascii_bytes_small [OF example_ascii(4)]]
    by (simp add: unat_ascii_bytes)
  then have p: "JSON_parse ([] @ snd (decode new_TextDecoder (ascii_bytes ''42''))) = Some (JNum 42 0)"
    by (simp add: number_parse)
  have b: "body number_body = Some \<lparr>chunks = [ascii_bytes ''42''], ending = Closed\<rparr>"
    by (simp add: number_body_def)
  have c: "chunks \<lparr>chunks = [ascii_bytes ''42''], ending = Closed\<rparr> = [] @ ascii_bytes ''42'' # []"
    by simp
  have a: "after_chunks (new_TextDecoder, []) [] = ((new_TextDecoder, []), [])" by simp
  have l: "lacks_field (JNum 42 0) (js ''answer'')" by simp
  from undefined_answer [OF example_ok(5,6) b c a p _ l, of example_platform example_request]
    example_ok(5,6) p l
  show ?thesis by simp
qed

text \<open>
  C10 as stated covers every JSON value without a member \<open>answer\<close>, and so \<open>null\<close>; but for
  the body \<open>null\<close> the property read throws, the \<open>catch\<close> shows the text \<open>null\<close> as the
  answer, \<open>setAnswer(undefined)\<close> is never called and the buffer is kept.
\<close>

theorem null_is_shown_as_text:
  "JSON_parse (js ''null'') = Some JNull
   \<and> lacks_field JNull (js ''answer'')
   \<and> fst (query example_platform example_request (Resolved null_body))
       = query_start @ [Fetch (js ''/api/query'') example_request, HeadersGet, GetReader, ReaderRead,
           SetAnswer (Val (JStr (js ''null''))), ReaderRead, SetIsLoading False]
   \<and> SetAnswer Undefined \<notin> set (fst (query example_platform example_request (Resolved null_body)))
   \<and> snd (fst (process_chunk (new_TextDecoder, []) (ascii_bytes ''null''))) = js ''null''"
proof -
  have pc: "process_chunk (new_TextDecoder, []) (ascii_bytes ''null'')
      = ((new_TextDecoder\<lparr>bom_seen := True\<rparr>, js ''null''), [SetAnswer (Val (JStr (js ''null'')))])"
    using null_attempt by (simp add: process_chunk_text [OF decoder_ready(1) example_ascii(3)])
  have "finish (js ''null'') = []"
    by (rule finish_failed) (simp add: null_attempt)
  with pc have "read_stream \<lparr>chunks = [ascii_bytes ''null''], ending = Closed\<rparr>
      = ([GetReader, ReaderRead, SetAnswer (Val (JStr (js ''null''))), ReaderRead], None)"
    by (simp add: read_stream_def)
  then have q: "fst (query example_platform example_request (Resolved null_body))
       = query_start @ [Fetch (js ''/api/query'') example_request, HeadersGet, GetReader, ReaderRead,
           SetAnswer (Val (JStr (js ''null''))), ReaderRead, SetIsLoading False]"
    using example_ok(3,4)
    by (simp add: query_def try_body_def endpoint_of_def example_platform_def)
       (simp add: null_body_def)
  then have "SetAnswer Undefined \<notin> set (fst (query example_platform example_request (Resolved null_body)))"
    by (simp add: query_start_def)
  with q pc null_parse show ?thesis by simp
qed

text \<open>
  C5. Whenever the \<open>try\<close> block of \<open>query\<close> throws (a rejected request, a status outside
  200 to 299, a missing body, a failed read of the stream, a body that is not the JSON it
  is declared to be), the state at the end of \<open>query\<close> is the state at the point of
  failure with \<open>error\<close> set to the message and \<open>isLoading\<close> false: \<open>answer\<close> keeps the
  value it had reached; and the promise resolves.
\<close>

theorem error_containment:
  assumes "try_body pf request fr = (evs, Some t)"
  shows "run s (fst (query pf request fr))
       = (run s (query_start @ evs))\<lparr>error := Some (errorMessage t), isLoading := False\<rparr>
    \<and> error (run s (fst (query pf request fr))) = Some (errorMessage t)
    \<and> answer (run s (fst (query pf request fr))) = answer (run s (query_start @ evs))
    \<and> isLoading (run s (fst (query pf request fr))) = False
    \<and> snd (query pf request fr) = None"
proof -
  have "fst (query pf request fr) = (query_start @ evs) @ (query_catch t @ [SetIsLoading False])"
    using assms by (simp add: query_def)
  then have "run s (fst (query pf request fr))
       = (run s (query_start @ evs))\<lparr>error := Some (errorMessage t), isLoading := False\<rparr>"
    by (simp add: run_append query_catch_def)
  moreover have "snd (query pf request fr) = None"
    using assms by (simp add: query_def)
  ultimately show ?thesis by simp
qed

theorem error_containment_witness:
  "try_body example_platform example_request (Resolved broken_stream)
     = ([Fetch (js ''/api/query'') example_request, HeadersGet, GetReader, ReaderRead,
         SetAnswer (Val (JStr (js ''Hel''))), ReaderRead,
         ConsoleError (js ''Stream reading error:'') (ErrorObject (js ''network error''))],
        Some (ErrorObject (js ''Failed to read streaming response'')))
   \<and> answer (run initial_state (fst (query example_platform example_request (Resolved broken_stream))))
       = Val (JStr (js ''Hel''))
   \<and> error (run initial_state (fst (query example_platform example_request (Resolved broken_stream))))
       = Some (js ''Failed to read streaming response'')
   \<and> isLoading (run initial_state (fst (query example_platform example_request (Resolved broken_stream))))
       = False
   \<and> snd (query example_platform example_request (Resolved broken_stream)) = None"
proof -
  have pc: "process_chunk (new_TextDecoder, []) (ascii_bytes ''Hel'')
      = ((new_TextDecoder\<lparr>bom_seen := True\<rparr>, js ''Hel''), [SetAnswer (Val (JStr (js ''Hel'')))])"
    using Hel_attempt by (simp add: process_chunk_text [OF decoder_ready(1) example_ascii(5)])
  then have "read_stream \<lparr>chunks = [ascii_bytes ''Hel''],
        ending = Errored (ErrorObject (js ''network error''))\<rparr>
      = ([GetReader, ReaderRead, SetAnswer (Val (JStr (js ''Hel''))), ReaderRead,
          ConsoleError (js ''Stream reading error:'') (ErrorObject (js ''network error''))],
         Some (ErrorObject (js ''Failed to read streaming response'')))"
    by (simp add: read_stream_def)
  then have tb: "try_body example_platform example_request (Resolved broken_stream)
     = ([Fetch (js ''/api/query'') example_request, HeadersGet, GetReader, ReaderRead,
         SetAnswer (Val (JStr (js ''Hel''))), ReaderRead,
         ConsoleError (js ''Stream reading error:'') (ErrorObject (js ''network error''))],
        Some (ErrorObject (js ''Failed to read streaming response'')))"
    using example_ok(7,8)
    by (simp add: try_body_def endpoint_of_def example_platform_def) (simp add: broken_stream_def)
  from error_containment [OF tb, of initial_state] tb show ?thesis
    by (simp add: query_start_def)
qed

text \<open>
  C6. When the response has a status outside 200 to 299, \<open>query\<close> ends with \<open>error\<close> set to
  \<open>API request failed: \<close> followed by the status text (so the message contains that text),
  \<open>isLoading\<close> false and \<open>answer\<close> the empty string; it reads neither the headers nor the
  body of the response, and its promise resolves.
\<close>

theorem non_2xx_status:
  assumes "\<not> ok r"
  shows "error (run s (fst (query pf request (Resolved r))))
           = Some (js ''API request failed: '' @ statusText r)
    \<and> string_includes (js ''API request failed: '' @ statusText r) (statusText r)
    \<and> isLoading (run s (fst (query pf request (Resolved r)))) = False
    \<and> answer (run s (fst (query pf request (Resolved r)))) = Val (JStr [])
    \<and> filter reads_response (fst (query pf request (Resolved r))) = []
    \<and> snd (query pf request (Resolved r)) = None"
  using assms
  by (simp add: query_def try_body_def query_start_def query_catch_def reads_response_def
      string_includes_suffix Let_def)

theorem non_2xx_status_witness:
  "\<not> ok \<lparr>status = 500, statusText = js ''Internal Server Error'', content_type = None,
          body = Some \<lparr>chunks = [ascii_bytes ''oops''], ending = Closed\<rparr>\<rparr>
   \<and> error (run initial_state (fst (query example_platform example_request
        (Resolved \<lparr>status = 500, statusText = js ''Internal Server Error'', content_type = None,
                   body = Some \<lparr>chunks = [ascii_bytes ''oops''], ending = Closed\<rparr>\<rparr>))))
       = Some (js ''API request failed: Internal Server Error'')
   \<and> answer (run initial_state (fst (query example_platform example_request
        (Resolved \<lparr>status = 500, statusText = js ''Internal Server Error'', content_type = None,
                   body = Some \<lparr>chunks = [ascii_bytes ''oops''], ending = Closed\<rparr>\<rparr>))))
       = Val (JStr [])"
  using non_2xx_status [of "\<lparr>status = 500, statusText = js ''Internal Server Error'',
      content_type = None, body = Some \<lparr>chunks = [ascii_bytes ''oops''], ending = Closed\<rparr>\<rparr>"
      initial_state example_platform example_request]
  by (simp add: ok_def js_def)

text \<open>
  C7. When the response has a status in 200 to 299, a content type that does not contain
  \<open>application/json\<close> (or none) and no body, \<open>query\<close> ends with \<open>error\<close> set to
  \<open>No response body received\<close> and \<open>isLoading\<close> false.
\<close>

theorem empty_success_body:
  assumes "ok r" and "\<not> is_json r" and "body r = None"
  shows "error (run s (fst (query pf request (Resolved r)))) = Some (js ''No response body received'')
    \<and> isLoading (run s (fst (query pf request (Resolved r)))) = False"
  using assms
  by (simp add: query_def try_body_def query_start_def query_catch_def Let_def)

theorem empty_success_body_witness:
  "ok \<lparr>status = 200, statusText = js ''OK'', content_type = None, body = None\<rparr>
   \<and> \<not> is_json \<lparr>status = 200, statusText = js ''OK'', content_type = None, body = None\<rparr>
   \<and> error (run initial_state (fst (query example_platform example_request
        (Resolved \<lparr>status = 200, statusText = js ''OK'', content_type = None, body = None\<rparr>))))
       = Some (js ''No response body received'')
   \<and> isLoading (run initial_state (fst (query example_platform example_request
        (Resolved \<lparr>status = 200, statusText = js ''OK'', content_type = None, body = None\<rparr>))))
       = False"
  using empty_success_body [of "\<lparr>status = 200, statusText = js ''OK'', content_type = None,
      body = None\<rparr>" initial_state example_platform example_request]
  by (simp add: ok_def is_json_def)

text \<open>
  C8. From every state, \<open>reset\<close> sets \<open>answer\<close> to the empty string, \<open>sources\<close> to the empty
  array and \<open>error\<close> to \<open>null\<close> and changes nothing else, so \<open>isLoading\<close> keeps its value; it
  makes no call to the network; a second \<open>reset\<close> changes nothing more.
\<close>

theorem reset_frame:
  "run s reset = s\<lparr>answer := Val (JStr []), sources := Val (JArr []), error := None\<rparr>
   \<and> isLoading (run s reset) = isLoading s
   \<and> filter is_network reset = []
   \<and> run (run s reset) reset = run s reset"
  by (simp add: reset_def is_network_def)

text \<open>
  C9. The parse at the end of the stream never changes the state: the buffer a chunk
  leaves is empty or has just failed the \<open>try\<close> block, so the \<open>done\<close> branch has no effect
  on it, and \<open>query\<close> without that parse has the same effects and result as \<open>query\<close>.
\<close>

theorem end_of_stream_reparse_redundant:
  "query_no_reparse pf request fr = query pf request fr
   \<and> finish [] = []
   \<and> finish (snd (fst (process_chunk st v))) = []"
  by (simp add: query_no_reparse_def query_def try_body_no_reparse_eq finish_Nil finish_after_chunk)

end
